theory Spec2Isabelle
  imports Complex_Main "HOL-Library.Word" "HOL-Library.Log_Nat"
begin

section \<open>Single-precision arithmetic of the host and of the kernel\<close>

text \<open>
  \<^verbatim>\<open>main.cc\<close> computes with the C++ type \<^verbatim>\<open>float\<close>: IEEE 754 binary32 on every platform
  that has Metal, with the default rounding (to nearest, ties to even). A float is modelled
  by its value: \<open>Fin q\<close> is the finite float of rational value \<open>q\<close> (\<open>Fin 0\<close> is +0),
  \<open>NZero\<close> is -0, \<open>PInf\<close> and \<open>NInf\<close> are the infinities, and \<open>NaN\<close> stands for every
  not-a-number (payloads are not told apart: no operation of the program reads them).
  Two floats with the same bits are the same value of this type, and, NaNs apart, two
  floats that are the same value have the same bits.
\<close>

datatype f32 = Fin rat | NZero | PInf | NInf | NaN

text \<open>\<open>ilog2 x\<close> is the binary exponent of a positive rational: \<open>2 ^ ilog2 x \<le> x < 2 ^ (ilog2 x + 1)\<close>.\<close>

definition ilog2 :: "rat \<Rightarrow> int" where
  "ilog2 x = (if 1 \<le> x then bitlen \<lfloor>x\<rfloor> - 1 else - bitlen (\<lceil>1 / x\<rceil> - 1))"

definition round_half_even :: "rat \<Rightarrow> int" where
  "round_half_even x =
     (let f = \<lfloor>x\<rfloor>; r = x - of_int f
      in if r < 1 / 2 then f else if 1 / 2 < r then f + 1 else if even f then f else f + 1)"

text \<open>
  Rounding to 24 significant bits: the unit in the last place of the binade of \<open>x\<close> is
  \<open>2 ^ ulp_exp x\<close>, with the exponent held at -126 in the subnormal range.
\<close>

definition ulp_exp :: "rat \<Rightarrow> int" where
  "ulp_exp x = max (ilog2 \<bar>x\<bar>) (- 126) - 23"

definition round_rat :: "rat \<Rightarrow> rat" where
  "round_rat x =
     (if x = 0 then 0
      else of_int (round_half_even (x / 2 powi ulp_exp x)) * 2 powi ulp_exp x)"

definition round_f32 :: "rat \<Rightarrow> f32" where
  "round_f32 x =
     (let y = round_rat x
      in if 2 ^ 128 \<le> y then PInf
         else if y \<le> - (2 ^ 128) then NInf
         else if y = 0 \<and> x < 0 then NZero
         else Fin y)"

fun is_neg :: "f32 \<Rightarrow> bool" where
  "is_neg (Fin q) = (q < 0)"
| "is_neg NZero = True"
| "is_neg NInf = True"
| "is_neg PInf = False"
| "is_neg NaN = False"

fun valof :: "f32 \<Rightarrow> rat" where
  "valof (Fin q) = q"
| "valof x = 0"

definition is_zero :: "f32 \<Rightarrow> bool" where
  "is_zero x = (x = Fin 0 \<or> x = NZero)"

definition is_inf :: "f32 \<Rightarrow> bool" where
  "is_inf x = (x = PInf \<or> x = NInf)"

fun float_add :: "f32 \<Rightarrow> f32 \<Rightarrow> f32" where
  "float_add NaN y = NaN"
| "float_add x NaN = NaN"
| "float_add PInf NInf = NaN"
| "float_add NInf PInf = NaN"
| "float_add PInf y = PInf"
| "float_add x PInf = PInf"
| "float_add NInf y = NInf"
| "float_add x NInf = NInf"
| "float_add NZero NZero = NZero"
| "float_add NZero (Fin b) = Fin b"
| "float_add (Fin a) NZero = Fin a"
| "float_add (Fin a) (Fin b) = round_f32 (a + b)"

definition float_mul :: "f32 \<Rightarrow> f32 \<Rightarrow> f32" where
  "float_mul x y =
     (if x = NaN \<or> y = NaN then NaN
      else if (is_inf x \<and> is_zero y) \<or> (is_zero x \<and> is_inf y) then NaN
      else if is_inf x \<or> is_inf y then (if is_neg x \<noteq> is_neg y then NInf else PInf)
      else if is_zero x \<or> is_zero y then (if is_neg x \<noteq> is_neg y then NZero else Fin 0)
      else round_f32 (valof x * valof y))"

definition float_div :: "f32 \<Rightarrow> f32 \<Rightarrow> f32" where
  "float_div x y =
     (if x = NaN \<or> y = NaN then NaN
      else if (is_inf x \<and> is_inf y) \<or> (is_zero x \<and> is_zero y) then NaN
      else if is_inf x \<or> is_zero y then (if is_neg x \<noteq> is_neg y then NInf else PInf)
      else if is_zero x \<or> is_inf y then (if is_neg x \<noteq> is_neg y then NZero else Fin 0)
      else round_f32 (valof x / valof y))"

text \<open>Conversion of an integer (\<^verbatim>\<open>int\<close>, \<^verbatim>\<open>unsigned int\<close>, \<^verbatim>\<open>long long\<close>) to \<^verbatim>\<open>float\<close>.\<close>

definition int_to_float :: "int \<Rightarrow> f32" where
  "int_to_float n = round_f32 (of_int n)"

text \<open>
  The operators \<^verbatim>\<open>==\<close> and \<^verbatim>\<open>!=\<close> on floats: a NaN is unequal to everything, itself
  included, and the two zeros are equal.
\<close>

fun unsigned_zero :: "f32 \<Rightarrow> f32" where
  "unsigned_zero NZero = Fin 0"
| "unsigned_zero x = x"

definition float_eq :: "f32 \<Rightarrow> f32 \<Rightarrow> bool" where
  "float_eq x y = (x \<noteq> NaN \<and> y \<noteq> NaN \<and> unsigned_zero x = unsigned_zero y)"

definition float_ne :: "f32 \<Rightarrow> f32 \<Rightarrow> bool" where
  "float_ne x y = (\<not> float_eq x y)"


section \<open>The constants of \<^verbatim>\<open>main.cc\<close>\<close>

text \<open>
  \<^verbatim>\<open>constexpr const unsigned int arrayLength = 1 << 24;\<close>
  \<^verbatim>\<open>constexpr const unsigned int bufferSize = arrayLength * sizeof(float);\<close>
  The product is taken in \<^verbatim>\<open>size_t\<close> (64 bits) and stored in an \<^verbatim>\<open>unsigned int\<close>.
\<close>

definition arrayLength :: "32 word" where
  "arrayLength = push_bit 24 1"

definition sizeof_float :: "64 word" where
  "sizeof_float = 4"

definition bufferSize :: "32 word" where
  "bufferSize = ucast ((ucast arrayLength :: 64 word) * sizeof_float)"


section \<open>Buffers, the program state and what lies outside the program\<close>

text \<open>
  A buffer of the device has a length in bytes and contents, read and written by the
  host through \<^verbatim>\<open>(float*)buffer->contents()\<close>: \<open>buf_contents b i\<close> is the float at
  element \<open>i\<close>. Buffers live in a heap indexed by the pointer \<^verbatim>\<open>MTL::Buffer*\<close>.
\<close>

record buffer =
  buf_length :: nat
  buf_contents :: "nat \<Rightarrow> f32"

text \<open>The three \<^verbatim>\<open>printf\<close> calls; a line is kept with the values it prints.\<close>

datatype line =
    ElapsedLine int
  | BandwidthLine f32
  | ComputeErrorLine nat f32 f32

record state =
  heap :: "nat \<Rightarrow> buffer"
  next_buffer :: nat
  rand_calls :: nat
  stdout :: "line list"
  mBufferA :: nat
  mBufferB :: nat
  mBufferResult :: nat

text \<open>
  What the program takes from outside: the C library (\<^verbatim>\<open>RAND_MAX\<close> and the values
  \<^verbatim>\<open>rand()\<close> returns, call after call; \<^verbatim>\<open>main.cc\<close> never calls \<^verbatim>\<open>srand\<close>, so this is the
  library's sequence for its default seed), the Metal objects that the assertions test
  for null, the pipeline's \<^verbatim>\<open>maxTotalThreadsPerThreadgroup\<close>, the addition of the device,
  the two readings of \<^verbatim>\<open>system_clock\<close> (counts of ticks, 64 bits, signed) and the number
  of clock ticks in a millisecond.
\<close>

record environment =
  RAND_MAX :: int
  rand_values :: "nat \<Rightarrow> int"
  library_compiles :: bool
  function_found :: bool
  pipeline_created :: bool
  queue_created :: bool
  command_buffer_created :: bool
  encoder_created :: bool
  maxTotalThreadsPerThreadgroup :: "64 word"
  device_add :: "f32 \<Rightarrow> f32 \<Rightarrow> f32"
  clock_before :: "64 word"
  clock_after :: "64 word"
  ticks_per_ms :: int

text \<open>A call returns, or a failed \<^verbatim>\<open>assert\<close> aborts the process; both leave a state behind.\<close>

datatype 'a result = Returned 'a | Aborted 'a

fun final :: "'a result \<Rightarrow> 'a" where
  "final (Returned s) = s"
| "final (Aborted s) = s"

fun aborted :: "'a result \<Rightarrow> bool" where
  "aborted (Returned s) = False"
| "aborted (Aborted s) = True"

definition newBuffer :: "nat \<Rightarrow> state \<Rightarrow> nat \<times> state" where
  "newBuffer len s =
     (next_buffer s,
      s\<lparr>heap := (heap s)(next_buffer s := \<lparr>buf_length = len, buf_contents = (\<lambda>i. Fin 0)\<rparr>),
        next_buffer := Suc (next_buffer s)\<rparr>)"

definition load_float :: "nat \<Rightarrow> nat \<Rightarrow> state \<Rightarrow> f32" where
  "load_float p i s = buf_contents (heap s p) i"

definition store_float :: "nat \<Rightarrow> nat \<Rightarrow> f32 \<Rightarrow> state \<Rightarrow> state" where
  "store_float p i v s =
     s\<lparr>heap := (heap s)(p := (heap s p)\<lparr>buf_contents := (buf_contents (heap s p))(i := v)\<rparr>)\<rparr>"

definition printf :: "line \<Rightarrow> state \<Rightarrow> state" where
  "printf l s = s\<lparr>stdout := stdout s @ [l]\<rparr>"


section \<open>Data preparation\<close>

text \<open>
  \<^verbatim>\<open>rand()\<close> returns the next value of the C library's sequence. The element stored is
  \<^verbatim>\<open>(float)rand() / (float)(RAND_MAX)\<close>.
\<close>

definition rand :: "environment \<Rightarrow> state \<Rightarrow> int \<times> state" where
  "rand env s = (rand_values env (rand_calls s), s\<lparr>rand_calls := Suc (rand_calls s)\<rparr>)"

definition random_float :: "environment \<Rightarrow> int \<Rightarrow> f32" where
  "random_float env r = float_div (int_to_float r) (int_to_float (RAND_MAX env))"

text \<open>
  \<^verbatim>\<open>for (unsigned long index = 0; index < arrayLength; ++index) dataPtr[index] = ...\<close>
  The counter stays below \<open>2 ^ 24\<close>, so a natural number is exact for it.
\<close>

function generate_loop :: "environment \<Rightarrow> nat \<Rightarrow> nat \<Rightarrow> state \<Rightarrow> state" where
  "generate_loop env dataPtr index s =
     (if index < unat arrayLength
      then (let (r, s1) = rand env s
            in generate_loop env dataPtr (Suc index)
                 (store_float dataPtr index (random_float env r) s1))
      else s)"
  by pat_completeness auto
termination
  by (relation "measure (\<lambda>(env, dataPtr, index, s). unat arrayLength - index)") auto

definition generateRandomFloatData :: "environment \<Rightarrow> nat \<Rightarrow> state \<Rightarrow> state" where
  "generateRandomFloatData env buffer s = generate_loop env buffer 0 s"

text \<open>
  \<^verbatim>\<open>newBuffer(bufferSize, MTL::ResourceStorageModeShared)\<close>, three times, then the two
  fills. Metal hands out a new buffer filled with zeros.
\<close>

definition prepareData :: "environment \<Rightarrow> state \<Rightarrow> state" where
  "prepareData env s =
     (let (a, s1) = newBuffer (unat bufferSize) s;
          s2 = s1\<lparr>mBufferA := a\<rparr>;
          (b, s3) = newBuffer (unat bufferSize) s2;
          s4 = s3\<lparr>mBufferB := b\<rparr>;
          (r, s5) = newBuffer (unat bufferSize) s4;
          s6 = s5\<lparr>mBufferResult := r\<rparr>;
          s7 = generateRandomFloatData env (mBufferA s6) s6
      in generateRandomFloatData env (mBufferB s7) s7)"


section \<open>Encoding the compute pass\<close>

record MTLSize =
  width :: "64 word"
  height :: "64 word"
  depth :: "64 word"

definition MTLSize_Make :: "64 word \<Rightarrow> 64 word \<Rightarrow> 64 word \<Rightarrow> MTLSize" where
  "MTLSize_Make w h d = \<lparr>width = w, height = h, depth = d\<rparr>"

text \<open>
  The encoder records the pipeline state, the argument table (buffer and byte offset at
  each index) and the dispatch.
\<close>

record encoder =
  pipeline_set :: bool
  argument_table :: "nat \<Rightarrow> (nat \<times> nat) option"
  dispatched :: "(MTLSize \<times> MTLSize) option"

definition new_encoder :: encoder where
  "new_encoder = \<lparr>pipeline_set = False, argument_table = (\<lambda>i. None), dispatched = None\<rparr>"

definition setComputePipelineState :: "encoder \<Rightarrow> encoder" where
  "setComputePipelineState enc = enc\<lparr>pipeline_set := True\<rparr>"

definition setBuffer :: "nat \<Rightarrow> nat \<Rightarrow> nat \<Rightarrow> encoder \<Rightarrow> encoder" where
  "setBuffer buffer offset index enc =
     enc\<lparr>argument_table := (argument_table enc)(index := Some (buffer, offset))\<rparr>"

definition dispatchThreads :: "MTLSize \<Rightarrow> MTLSize \<Rightarrow> encoder \<Rightarrow> encoder" where
  "dispatchThreads threadsPerGrid threadsPerThreadgroup enc =
     enc\<lparr>dispatched := Some (threadsPerGrid, threadsPerThreadgroup)\<rparr>"

text \<open>
  \<^verbatim>\<open>NS::UInteger threadGroupSize = _mAddFunctionPSO->maxTotalThreadsPerThreadgroup();\<close>
  \<^verbatim>\<open>if (threadGroupSize > arrayLength) threadGroupSize = arrayLength;\<close>
  \<^verbatim>\<open>NS::UInteger\<close> is 64 bits wide; \<^verbatim>\<open>arrayLength\<close> is widened for the comparison.
\<close>

definition threadGroupSize :: "environment \<Rightarrow> 64 word" where
  "threadGroupSize env =
     (if maxTotalThreadsPerThreadgroup env > ucast arrayLength
      then ucast arrayLength
      else maxTotalThreadsPerThreadgroup env)"

definition encodeAddCommand :: "environment \<Rightarrow> state \<Rightarrow> encoder \<Rightarrow> encoder" where
  "encodeAddCommand env s computeEncoder =
     (let e1 = setComputePipelineState computeEncoder;
          e2 = setBuffer (mBufferA s) 0 0 e1;
          e3 = setBuffer (mBufferB s) 0 1 e2;
          e4 = setBuffer (mBufferResult s) 0 2 e3;
          gridSize = MTLSize_Make (ucast arrayLength) 1 1;
          threadgroupSize = MTLSize_Make (threadGroupSize env) 1 1
      in dispatchThreads gridSize threadgroupSize e4)"


section \<open>The device\<close>

text \<open>
  Modelled from the spec: the device side of Metal, which the repository calls and does
  not contain. A kernel is "executed many times in parallel, once per logical thread,
  over a grid of indices", the invocations "batched together per dispatch unit" in thread
  groups of the size given, "bounded by hardware limits". Along an axis of \<open>w\<close>
  positions the groups hold \<open>t\<close> threads each and the last group is cut at the edge of
  the grid. A thread group without threads, or with more threads than the pipeline
  allows, is refused.
\<close>

definition axis_threads :: "nat \<Rightarrow> nat \<Rightarrow> nat list" where
  "axis_threads w t =
     concat (map (\<lambda>g. [g * t ..< min (Suc g * t) w]) [0 ..< (w + t - 1) div t])"

definition grid_threads ::
    "environment \<Rightarrow> MTLSize \<Rightarrow> MTLSize \<Rightarrow> (nat \<times> nat \<times> nat) list option" where
  "grid_threads env grid tg =
     (let n = unat (width tg) * unat (height tg) * unat (depth tg)
      in if n = 0 \<or> unat (maxTotalThreadsPerThreadgroup env) < n then None
         else Some (concat (map (\<lambda>z. concat (map (\<lambda>y. map (\<lambda>x. (x, y, z))
                 (axis_threads (unat (width grid)) (unat (width tg))))
                 (axis_threads (unat (height grid)) (unat (height tg)))))
                 (axis_threads (unat (depth grid)) (unat (depth tg))))))"

text \<open>
  The kernel of \<^verbatim>\<open>shaderSrc\<close>:
  \<^verbatim>\<open>result[index] = inA[index] + inB[index];\<close>
  with \<^verbatim>\<open>index\<close> the thread's position in the grid. A kernel argument is a buffer and the
  byte offset it was bound with. The addition is the device's.
\<close>

definition device_load :: "nat \<times> nat \<Rightarrow> nat \<Rightarrow> state \<Rightarrow> f32" where
  "device_load arg index s = load_float (fst arg) (snd arg div unat sizeof_float + index) s"

definition device_store :: "nat \<times> nat \<Rightarrow> nat \<Rightarrow> f32 \<Rightarrow> state \<Rightarrow> state" where
  "device_store arg index v s =
     store_float (fst arg) (snd arg div unat sizeof_float + index) v s"

definition add_arrays ::
    "environment \<Rightarrow> nat \<times> nat \<Rightarrow> nat \<times> nat \<Rightarrow> nat \<times> nat \<Rightarrow> nat \<Rightarrow> state \<Rightarrow> state" where
  "add_arrays env inA inB result index s =
     device_store result index
       (device_add env (device_load inA index s) (device_load inB index s)) s"

definition run_threads ::
    "environment \<Rightarrow> nat \<times> nat \<Rightarrow> nat \<times> nat \<Rightarrow> nat \<times> nat \<Rightarrow> (nat \<times> nat \<times> nat) list
       \<Rightarrow> state \<Rightarrow> state" where
  "run_threads env inA inB result ts s =
     fold (\<lambda>t. add_arrays env inA inB result (fst t)) ts s"

text \<open>
  \<^verbatim>\<open>commandBuffer->commit(); commandBuffer->waitUntilCompleted();\<close>
  The device runs what the encoder recorded; \<open>None\<close> is a command the API refuses.
\<close>

definition commit_and_wait :: "environment \<Rightarrow> encoder \<Rightarrow> state \<Rightarrow> state option" where
  "commit_and_wait env enc s =
     (if \<not> pipeline_set enc then None
      else case dispatched enc of
        None \<Rightarrow> Some s
      | Some (grid, tg) \<Rightarrow>
          (case grid_threads env grid tg of
             None \<Rightarrow> None
           | Some ts \<Rightarrow>
               (case (argument_table enc 0, argument_table enc 1, argument_table enc 2) of
                  (Some inA, Some inB, Some result) \<Rightarrow> Some (run_threads env inA inB result ts s)
                | _ \<Rightarrow> None)))"


section \<open>Verification on the host\<close>

text \<open>
  \<^verbatim>\<open>if (result[index] != (a[index] + b[index])) { printf(...); assert(result[index] == (a[index] + b[index])); }\<close>
  The assertion is compiled in (no \<^verbatim>\<open>NDEBUG\<close>).
\<close>

function verify_loop :: "nat \<Rightarrow> state \<Rightarrow> state result" where
  "verify_loop index s =
     (if index < unat arrayLength
      then (let a = load_float (mBufferA s) index s;
                b = load_float (mBufferB s) index s;
                r = load_float (mBufferResult s) index s
            in if float_ne r (float_add a b)
               then (let s1 = printf (ComputeErrorLine index r (float_add a b)) s
                     in if float_eq r (float_add a b) then verify_loop (Suc index) s1
                        else Aborted s1)
               else verify_loop (Suc index) s)
      else Returned s)"
  by pat_completeness auto
termination
  by (relation "measure (\<lambda>(index, s). unat arrayLength - index)") auto

definition verifyResults :: "state \<Rightarrow> state result" where
  "verifyResults s = verify_loop 0 s"


section \<open>Submission, timing and report\<close>

text \<open>
  \<^verbatim>\<open>duration_cast<std::chrono::milliseconds>(b - a).count()\<close>: the difference \<^verbatim>\<open>b - a\<close> of
  the two tick counts is taken in 64 bits and wraps around; its signed value is divided
  by the number of ticks in a millisecond, truncating towards zero.
\<close>

definition duration_cast_ms :: "environment \<Rightarrow> int \<Rightarrow> int" where
  "duration_cast_ms env d =
     (if 0 \<le> d then d div ticks_per_ms env else - ((- d) div ticks_per_ms env))"

text \<open>
  \<^verbatim>\<open>2000.0f * bufferSize / 1024 / 1024 / 1024 / elapsed\<close>: every operand is converted to
  \<^verbatim>\<open>float\<close> and the operations associate to the left.
\<close>

definition bandwidth :: "int \<Rightarrow> f32" where
  "bandwidth elapsed =
     float_div
       (float_div
          (float_div
             (float_div (float_mul (Fin 2000) (int_to_float (uint bufferSize)))
                (int_to_float 1024))
             (int_to_float 1024))
          (int_to_float 1024))
       (int_to_float elapsed)"

definition sendComputeCommand :: "environment \<Rightarrow> state \<Rightarrow> state result" where
  "sendComputeCommand env s =
     (if \<not> command_buffer_created env then Aborted s
      else if \<not> encoder_created env then Aborted s
      else let computeEncoder = encodeAddCommand env s new_encoder;
               a = clock_before env
           in case commit_and_wait env computeEncoder s of
                None \<Rightarrow> Aborted s
              | Some s1 \<Rightarrow>
                  (let b = clock_after env;
                       elapsed = duration_cast_ms env (sint (b - a));
                       s2 = printf (ElapsedLine elapsed) s1;
                       s3 = printf (BandwidthLine (bandwidth elapsed)) s2
                   in verifyResults s3))"


section \<open>Construction and \<^verbatim>\<open>main\<close>\<close>

definition MetalAdder :: "environment \<Rightarrow> state \<Rightarrow> state result" where
  "MetalAdder env s =
     (if \<not> library_compiles env then Aborted s
      else if \<not> function_found env then Aborted s
      else if \<not> pipeline_created env then Aborted s
      else if \<not> queue_created env then Aborted s
      else Returned s)"

definition initial_state :: state where
  "initial_state =
     \<lparr>heap = (\<lambda>p. \<lparr>buf_length = 0, buf_contents = (\<lambda>i. Fin 0)\<rparr>), next_buffer = 0,
      rand_calls = 0, stdout = [], mBufferA = 0, mBufferB = 0, mBufferResult = 0\<rparr>"

definition main :: "environment \<Rightarrow> state result" where
  "main env =
     (case MetalAdder env initial_state of
        Aborted s \<Rightarrow> Aborted s
      | Returned adder \<Rightarrow> sendComputeCommand env (prepareData env adder))"


section \<open>Notation for the statements\<close>

text \<open>The element of \<^verbatim>\<open>Result\<close> at an index, and the sum the host recomputes there.\<close>

abbreviation result_at :: "state \<Rightarrow> nat \<Rightarrow> f32" where
  "result_at s i \<equiv> load_float (mBufferResult s) i s"

abbreviation host_sum :: "state \<Rightarrow> nat \<Rightarrow> f32" where
  "host_sum s i \<equiv> float_add (load_float (mBufferA s) i s) (load_float (mBufferB s) i s)"

text \<open>
  The state after the device has run the kernel once at every position of a grid of
  \<^verbatim>\<open>arrayLength\<close> threads, on the three buffers bound at offset 0.
\<close>

abbreviation device_run :: "environment \<Rightarrow> state \<Rightarrow> state" where
  "device_run env s \<equiv>
     run_threads env (mBufferA s, 0) (mBufferB s, 0) (mBufferResult s, 0)
       (map (\<lambda>x. (x, 0, 0)) [0 ..< unat arrayLength]) s"


text \<open>The elapsed time in milliseconds and the state after the two lines of the report.\<close>

abbreviation elapsed_ms :: "environment \<Rightarrow> int" where
  "elapsed_ms env \<equiv> duration_cast_ms env (sint (clock_after env - clock_before env))"

abbreviation report :: "environment \<Rightarrow> state \<Rightarrow> state" where
  "report env s \<equiv>
     printf (BandwidthLine (bandwidth (elapsed_ms env))) (printf (ElapsedLine (elapsed_ms env)) s)"


section \<open>Concrete runs\<close>

text \<open>
  A run on Darwin: \<^verbatim>\<open>RAND_MAX\<close> is \<open>2 ^ 31 - 1\<close>, the clock ticks in microseconds, the
  pipeline allows 1024 threads in a group, and the device adds as the host does. Here
  \<^verbatim>\<open>rand()\<close> returns \<open>2 ^ 30\<close> at every call, the command takes 5 ms.
\<close>

definition sample_env :: environment where
  "sample_env =
     \<lparr>RAND_MAX = 2147483647, rand_values = (\<lambda>k. 1073741824),
      library_compiles = True, function_found = True, pipeline_created = True,
      queue_created = True, command_buffer_created = True, encoder_created = True,
      maxTotalThreadsPerThreadgroup = 1024, device_add = float_add,
      clock_before = 0, clock_after = 5000, ticks_per_ms = 1000\<rparr>"

text \<open>The same run on a device whose kernel returns its first operand.\<close>

definition faulty_device_env :: environment where
  "faulty_device_env = sample_env\<lparr>device_add := (\<lambda>x y. x)\<rparr>"

text \<open>The same run when \<^verbatim>\<open>rand()\<close> returns \<^verbatim>\<open>RAND_MAX\<close>.\<close>

definition max_rand_env :: environment where
  "max_rand_env = sample_env\<lparr>rand_values := (\<lambda>k. 2147483647)\<rparr>"

text \<open>The same run when the system clock is set back by 3 ms while the command runs.\<close>

definition clock_back_env :: environment where
  "clock_back_env = sample_env\<lparr>clock_before := 3000, clock_after := 0\<rparr>"

text \<open>The same run when the command completes within the millisecond.\<close>

definition same_ms_env :: environment where
  "same_ms_env = sample_env\<lparr>clock_after := 999\<rparr>"

text \<open>
  The same run on a clock that ticks in nanoseconds, when the two readings are so far
  apart that their difference does not fit in 64 bits.
\<close>

definition wrapped_clock_env :: environment where
  "wrapped_clock_env =
     sample_env\<lparr>clock_before := - 5000000000000000000, clock_after := 5000000000000000000,
       ticks_per_ms := 1000000\<rparr>"

text \<open>
  A state after data preparation and the device's run in which every element of A is
  \<open>a\<close>, every element of B is \<open>b\<close> and every element of Result is \<open>r\<close>.
\<close>

definition uniform_state :: "f32 \<Rightarrow> f32 \<Rightarrow> f32 \<Rightarrow> state" where
  "uniform_state a b r =
     \<lparr>heap = (\<lambda>p. \<lparr>buf_length = unat bufferSize,
                       buf_contents = (\<lambda>i. if p = 0 then a else if p = 1 then b else r)\<rparr>),
      next_buffer = 3, rand_calls = 2 * unat arrayLength, stdout = [],
      mBufferA = 0, mBufferB = 1, mBufferResult = 2\<rparr>"

text \<open>The \<^verbatim>\<open>arrayLength\<close> floats of a buffer, in the order of the indices.\<close>

definition buffer_floats :: "nat \<Rightarrow> state \<Rightarrow> f32 list" where
  "buffer_floats p s = map (\<lambda>i. load_float p i s) [0 ..< unat arrayLength]"


section \<open>Constants and the thread-group size\<close>

declare generate_loop.simps [simp del]
declare verify_loop.simps [simp del]

lemma unat_arrayLength: "unat arrayLength = 16777216"
  by (simp add: arrayLength_def)

lemma ucast_arrayLength: "(ucast arrayLength :: 64 word) = 16777216"
  by (simp add: arrayLength_def)

lemma unat_bufferSize: "unat bufferSize = 67108864"
  by (simp add: bufferSize_def ucast_arrayLength sizeof_float_def)

lemma uint_bufferSize: "uint bufferSize = 67108864"
  by (simp add: bufferSize_def ucast_arrayLength sizeof_float_def)

lemma threadGroupSize_le_max: "threadGroupSize env \<le> maxTotalThreadsPerThreadgroup env"
  by (auto simp: threadGroupSize_def)

lemma threadGroupSize_le_len: "threadGroupSize env \<le> ucast arrayLength"
  by (auto simp: threadGroupSize_def)

lemma dispatched_encodeAddCommand:
  "dispatched (encodeAddCommand env s enc) =
     Some (MTLSize_Make (ucast arrayLength) 1 1, MTLSize_Make (threadGroupSize env) 1 1)"
  by (simp add: encodeAddCommand_def dispatchThreads_def Let_def)

lemma verify_loop_heap: "heap (final (verify_loop i s)) = heap s"
proof (induction i s rule: verify_loop.induct)
  case (1 index s)
  show ?case
    apply (subst verify_loop.simps)
    using 1 by (auto simp: Let_def printf_def)
qed


lemma verify_loop_pointers:
  "mBufferA (final (verify_loop i s)) = mBufferA s
   \<and> mBufferB (final (verify_loop i s)) = mBufferB s
   \<and> mBufferResult (final (verify_loop i s)) = mBufferResult s"
proof (induction i s rule: verify_loop.induct)
  case (1 index s)
  show ?case
    apply (subst (1 2 3) verify_loop.simps)
    using 1 by (auto simp: Let_def printf_def)
qed

lemma verify_loop_pass:
  "(\<forall>j. i \<le> j \<and> j < unat arrayLength \<longrightarrow> float_eq (result_at s j) (host_sum s j))
     \<Longrightarrow> verify_loop i s = Returned s"
proof (induction i s rule: verify_loop.induct)
  case (1 index s)
  show ?case
  proof (cases "index < unat arrayLength")
    case True
    with "1.prems" have eq: "float_eq (result_at s index) (host_sum s index)" by simp
    from "1.prems" have rest: "\<forall>j. Suc index \<le> j \<and> j < unat arrayLength \<longrightarrow>
        float_eq (result_at s j) (host_sum s j)" by simp
    have "verify_loop (Suc index) s = Returned s"
      using "1.IH"(2) [OF True refl refl refl _ rest] eq by (simp add: float_ne_def)
    with True eq show ?thesis
      by (subst verify_loop.simps) (simp add: float_ne_def Let_def)
  next
    case False
    then show ?thesis by (subst verify_loop.simps) simp
  qed
qed

lemma verify_loop_fail:
  "i \<le> k \<Longrightarrow> k < unat arrayLength \<Longrightarrow> \<not> float_eq (result_at s k) (host_sum s k)
     \<Longrightarrow> (\<forall>j. i \<le> j \<and> j < k \<longrightarrow> float_eq (result_at s j) (host_sum s j))
     \<Longrightarrow> verify_loop i s = Aborted (printf (ComputeErrorLine k (result_at s k) (host_sum s k)) s)"
proof (induction i s rule: verify_loop.induct)
  case (1 index s)
  from "1.prems" have lt: "index < unat arrayLength" by simp
  show ?case
  proof (cases "index = k")
    case True
    with lt "1.prems"(3) show ?thesis
      by (subst verify_loop.simps) (simp add: float_ne_def Let_def)
  next
    case False
    with "1.prems" have lt2: "Suc index \<le> k" and eq: "float_eq (result_at s index) (host_sum s index)"
      by simp_all
    from "1.prems" have rest: "\<forall>j. Suc index \<le> j \<and> j < k \<longrightarrow>
        float_eq (result_at s j) (host_sum s j)" by simp
    have "verify_loop (Suc index) s =
        Aborted (printf (ComputeErrorLine k (result_at s k) (host_sum s k)) s)"
      using "1.IH"(2) [OF lt refl refl refl _ lt2 "1.prems"(2) "1.prems"(3) rest] eq
      by (simp add: float_ne_def)
    with lt eq show ?thesis
      by (subst verify_loop.simps) (simp add: float_ne_def Let_def)
  qed
qed

lemma first_mismatch:
  assumes "\<exists>i<n. P (i::nat)"
  shows "\<exists>k<n. P k \<and> (\<forall>j<k. \<not> P j)"
proof -
  from assms obtain i where i: "i < n" "P i" by blast
  from i(2) have "\<exists>k. P k \<and> (\<forall>m<k. \<not> P m)"
    by (subst exists_least_iff [symmetric]) (rule exI)
  then obtain k where k: "P k" "\<forall>m<k. \<not> P m" by blast
  have "\<not> i < k" using k(2) i(2) by blast
  then have "k < n" using i(1) by simp
  with k show ?thesis by blast
qed

lemma verifyResults_cases:
  "(\<forall>i<unat arrayLength. float_eq (result_at s i) (host_sum s i)) \<and> verifyResults s = Returned s
   \<or> (\<exists>k<unat arrayLength. \<not> float_eq (result_at s k) (host_sum s k)
        \<and> (\<forall>j<k. float_eq (result_at s j) (host_sum s j))
        \<and> verifyResults s = Aborted (printf (ComputeErrorLine k (result_at s k) (host_sum s k)) s))"
proof (cases "\<forall>i<unat arrayLength. float_eq (result_at s i) (host_sum s i)")
  case True
  then show ?thesis by (simp add: verifyResults_def verify_loop_pass)
next
  case False
  then have "\<exists>i<unat arrayLength. \<not> float_eq (result_at s i) (host_sum s i)" by simp
  from first_mismatch [OF this] obtain k where k: "k < unat arrayLength"
      "\<not> float_eq (result_at s k) (host_sum s k)" "\<forall>j<k. float_eq (result_at s j) (host_sum s j)"
    by auto
  have "verifyResults s = Aborted (printf (ComputeErrorLine k (result_at s k) (host_sum s k)) s)"
    unfolding verifyResults_def using k by (intro verify_loop_fail) auto
  with k show ?thesis by blast
qed


section \<open>The fill loop and the grid\<close>

lemma generate_loop_unfold:
  "generate_loop env p i s =
     (if i < unat arrayLength
      then generate_loop env p (Suc i)
             (store_float p i (random_float env (rand_values env (rand_calls s)))
                (s\<lparr>rand_calls := Suc (rand_calls s)\<rparr>))
      else s)"
  by (subst generate_loop.simps) (simp add: rand_def)

lemma generate_loop_rand_calls:
  "rand_calls (generate_loop env p i s) = rand_calls s + (unat arrayLength - i)"
proof (induction "unat arrayLength - i" arbitrary: i s)
  case 0
  then show ?case by (subst generate_loop_unfold) simp
next
  case (Suc n)
  then have lt: "i < unat arrayLength" and n: "n = unat arrayLength - Suc i" by simp_all
  show ?case
    by (subst generate_loop_unfold) (use lt in \<open>simp add: Suc.hyps(1) [OF n] store_float_def\<close>)
qed

lemma generate_loop_fields:
  "stdout (generate_loop env p i s) = stdout s"
  "next_buffer (generate_loop env p i s) = next_buffer s"
  "mBufferA (generate_loop env p i s) = mBufferA s"
  "mBufferB (generate_loop env p i s) = mBufferB s"
  "mBufferResult (generate_loop env p i s) = mBufferResult s"
proof (induction "unat arrayLength - i" arbitrary: i s)
  case 0
  { case 1 from 0 show ?case by (subst generate_loop_unfold) simp }
  { case 2 from 0 show ?case by (subst generate_loop_unfold) simp }
  { case 3 from 0 show ?case by (subst generate_loop_unfold) simp }
  { case 4 from 0 show ?case by (subst generate_loop_unfold) simp }
  { case 5 from 0 show ?case by (subst generate_loop_unfold) simp }
next
  case (Suc n)
  then have lt: "i < unat arrayLength" and n: "n = unat arrayLength - Suc i" by simp_all
  { case 1 show ?case
      by (subst generate_loop_unfold) (use lt in \<open>simp add: Suc.hyps(1) [OF n] store_float_def\<close>) }
  { case 2 show ?case
      by (subst generate_loop_unfold) (use lt in \<open>simp add: Suc.hyps(2) [OF n] store_float_def\<close>) }
  { case 3 show ?case
      by (subst generate_loop_unfold) (use lt in \<open>simp add: Suc.hyps(3) [OF n] store_float_def\<close>) }
  { case 4 show ?case
      by (subst generate_loop_unfold) (use lt in \<open>simp add: Suc.hyps(4) [OF n] store_float_def\<close>) }
  { case 5 show ?case
      by (subst generate_loop_unfold) (use lt in \<open>simp add: Suc.hyps(5) [OF n] store_float_def\<close>) }
qed

lemma generate_loop_other:
  "q \<noteq> p \<Longrightarrow> heap (generate_loop env p i s) q = heap s q"
proof (induction "unat arrayLength - i" arbitrary: i s)
  case 0
  then show ?case by (subst generate_loop_unfold) simp
next
  case (Suc n)
  then have lt: "i < unat arrayLength" and n: "n = unat arrayLength - Suc i" by simp_all
  show ?case
    by (subst generate_loop_unfold)
      (use lt Suc.prems in \<open>simp add: Suc.hyps(1) [OF n] store_float_def\<close>)
qed

lemma generate_loop_length:
  "buf_length (heap (generate_loop env p i s) q) = buf_length (heap s q)"
proof (induction "unat arrayLength - i" arbitrary: i s)
  case 0
  then show ?case by (subst generate_loop_unfold) simp
next
  case (Suc n)
  then have lt: "i < unat arrayLength" and n: "n = unat arrayLength - Suc i" by simp_all
  show ?case
    by (subst generate_loop_unfold)
      (use lt in \<open>simp add: Suc.hyps(1) [OF n] store_float_def\<close>)
qed

lemma generate_loop_contents:
  "buf_contents (heap (generate_loop env p i s) p) j =
     (if i \<le> j \<and> j < unat arrayLength
      then random_float env (rand_values env (rand_calls s + (j - i)))
      else buf_contents (heap s p) j)"
proof (induction "unat arrayLength - i" arbitrary: i s)
  case 0
  then show ?case by (subst generate_loop_unfold) auto
next
  case (Suc n)
  then have lt: "i < unat arrayLength" and n: "n = unat arrayLength - Suc i" by simp_all
  have shift: "Suc (rand_calls s) + (j - Suc i) = rand_calls s + (j - i)" if "Suc i \<le> j"
    using that by simp
  show ?case
  proof (cases "Suc i \<le> j")
    case True
    with lt show ?thesis
      by (subst generate_loop_unfold)
        (simp add: Suc.hyps(1) [OF n] store_float_def shift del: add_Suc)
  next
    case False
    with lt show ?thesis
      by (subst generate_loop_unfold)
        (auto simp add: Suc.hyps(1) [OF n] store_float_def)
  qed
qed

lemma upt_split: "a \<le> b \<Longrightarrow> b \<le> c \<Longrightarrow> [a ..< c] = [a ..< b] @ [b ..< c]"
  using upt_add_eq_append [of a b "c - b"] by simp

lemma axis_threads_prefix:
  "concat (map (\<lambda>g. [g * t ..< min (Suc g * t) w]) [0 ..< k]) = [0 ..< min (k * t) w]"
proof (induction k)
  case 0
  then show ?case by simp
next
  case (Suc k)
  show ?case
  proof (cases "k * t \<le> w")
    case True
    have "[0 ..< min (Suc k * t) w] = [0 ..< k * t] @ [k * t ..< min (Suc k * t) w]"
      using True by (intro upt_split) simp_all
    with True Suc show ?thesis by (simp add: min_absorb1)
  next
    case False
    then have "min (k * t) w = w" "min (Suc k * t) w = w" by simp_all
    with False Suc show ?thesis by simp
  qed
qed

lemma axis_threads_all: "0 < t \<Longrightarrow> axis_threads w t = [0 ..< w]"
proof -
  assume t: "0 < t"
  have "w \<le> ((w + t - 1) div t) * t"
  proof -
    have "(w + t - 1) mod t < t" using t by simp
    moreover have "(w + t - 1) div t * t + (w + t - 1) mod t = w + t - 1" by simp
    ultimately show ?thesis by linarith
  qed
  then show ?thesis unfolding axis_threads_def axis_threads_prefix by simp
qed

lemma axis_threads_one: "axis_threads 1 1 = [0]"
  by (simp add: axis_threads_all)

lemma unat_threadGroupSize_pos:
  "maxTotalThreadsPerThreadgroup env \<noteq> 0 \<Longrightarrow> 0 < unat (threadGroupSize env)"
  by (auto simp: threadGroupSize_def ucast_arrayLength unat_gt_0)

lemma grid_threads_encoded:
  assumes "maxTotalThreadsPerThreadgroup env \<noteq> 0"
  shows "grid_threads env (MTLSize_Make (ucast arrayLength) 1 1)
           (MTLSize_Make (threadGroupSize env) 1 1)
         = Some (map (\<lambda>x. (x, 0, 0)) [0 ..< unat arrayLength])"
proof -
  have pos: "0 < unat (threadGroupSize env)" using assms by (rule unat_threadGroupSize_pos)
  have le: "unat (threadGroupSize env) \<le> unat (maxTotalThreadsPerThreadgroup env)"
    using threadGroupSize_le_max [of env] by (simp add: word_le_nat_alt)
  have w: "unat (ucast arrayLength :: 64 word) = unat arrayLength"
    by (simp add: ucast_arrayLength unat_arrayLength)
  show ?thesis
    using pos le
    by (simp add: grid_threads_def MTLSize_Make_def Let_def axis_threads_one
        axis_threads_all w)
qed


section \<open>The kernel run, submission and data preparation\<close>

lemma add_arrays_zero_offset:
  "add_arrays env (a, 0) (b, 0) (r, 0) x s =
     store_float r x (device_add env (load_float a x s) (load_float b x s)) s"
  by (simp add: add_arrays_def device_load_def device_store_def)

lemma run_threads_fold:
  "run_threads env inA inB result (map (\<lambda>x. (x, 0, 0)) xs) s =
     fold (add_arrays env inA inB result) xs s"
  by (simp add: run_threads_def fold_map comp_def)

lemma fold_add_arrays_fields:
  "stdout (fold (add_arrays env (a, 0) (b, 0) (r, 0)) xs s) = stdout s"
  "rand_calls (fold (add_arrays env (a, 0) (b, 0) (r, 0)) xs s) = rand_calls s"
  "next_buffer (fold (add_arrays env (a, 0) (b, 0) (r, 0)) xs s) = next_buffer s"
  "mBufferA (fold (add_arrays env (a, 0) (b, 0) (r, 0)) xs s) = mBufferA s"
  "mBufferB (fold (add_arrays env (a, 0) (b, 0) (r, 0)) xs s) = mBufferB s"
  "mBufferResult (fold (add_arrays env (a, 0) (b, 0) (r, 0)) xs s) = mBufferResult s"
  by (induction xs arbitrary: s; simp add: add_arrays_zero_offset store_float_def)+

lemma fold_add_arrays_other:
  "q \<noteq> r \<Longrightarrow> heap (fold (add_arrays env (a, 0) (b, 0) (r, 0)) xs s) q = heap s q"
  by (induction xs arbitrary: s) (simp_all add: add_arrays_zero_offset store_float_def)

lemma fold_add_arrays_length:
  "buf_length (heap (fold (add_arrays env (a, 0) (b, 0) (r, 0)) xs s) q) = buf_length (heap s q)"
  by (induction xs arbitrary: s) (simp_all add: add_arrays_zero_offset store_float_def)

lemma fold_add_arrays_contents:
  "r \<noteq> a \<Longrightarrow> r \<noteq> b \<Longrightarrow>
   buf_contents (heap (fold (add_arrays env (a, 0) (b, 0) (r, 0)) xs s) r) j =
     (if j \<in> set xs
      then device_add env (buf_contents (heap s a) j) (buf_contents (heap s b) j)
      else buf_contents (heap s r) j)"
proof (induction xs arbitrary: s)
  case Nil
  then show ?case by simp
next
  case (Cons x xs)
  let ?s1 = "add_arrays env (a, 0) (b, 0) (r, 0) x s"
  have a: "heap ?s1 a = heap s a" and b: "heap ?s1 b = heap s b"
    using Cons.prems by (simp_all add: add_arrays_zero_offset store_float_def)
  have r: "buf_contents (heap ?s1 r) k =
      (if k = x then device_add env (buf_contents (heap s a) k) (buf_contents (heap s b) k)
       else buf_contents (heap s r) k)" for k
    by (simp add: add_arrays_zero_offset store_float_def load_float_def)
  show ?case
    using Cons.IH [OF Cons.prems, of ?s1] by (simp add: a b r)
qed

lemma commit_and_wait_encoded:
  assumes "maxTotalThreadsPerThreadgroup env \<noteq> 0"
  shows "commit_and_wait env (encodeAddCommand env s new_encoder) s = Some (device_run env s)"
proof -
  have args: "argument_table (encodeAddCommand env s new_encoder) 0 = Some (mBufferA s, 0)"
    "argument_table (encodeAddCommand env s new_encoder) (Suc 0) = Some (mBufferB s, 0)"
    "argument_table (encodeAddCommand env s new_encoder) 2 = Some (mBufferResult s, 0)"
    "pipeline_set (encodeAddCommand env s new_encoder)"
    by (simp_all add: encodeAddCommand_def Let_def dispatchThreads_def setBuffer_def
        setComputePipelineState_def new_encoder_def)
  show ?thesis
    by (simp add: commit_and_wait_def args dispatched_encodeAddCommand
        grid_threads_encoded [OF assms])
qed

lemma sendComputeCommand_run:
  assumes "command_buffer_created env" "encoder_created env"
    "maxTotalThreadsPerThreadgroup env \<noteq> 0"
  shows "sendComputeCommand env s =
    verifyResults
      (printf (BandwidthLine (bandwidth (elapsed_ms env)))
        (printf (ElapsedLine (elapsed_ms env))
          (device_run env s)))"
  using assms by (simp add: sendComputeCommand_def Let_def commit_and_wait_encoded)

lemma device_run_fields:
  "stdout (device_run env s) = stdout s"
  "rand_calls (device_run env s) = rand_calls s"
  "next_buffer (device_run env s) = next_buffer s"
  "mBufferA (device_run env s) = mBufferA s"
  "mBufferB (device_run env s) = mBufferB s"
  "mBufferResult (device_run env s) = mBufferResult s"
  by (simp_all add: run_threads_fold fold_add_arrays_fields)

lemma device_run_other:
  "q \<noteq> mBufferResult s \<Longrightarrow> heap (device_run env s) q = heap s q"
  by (simp add: run_threads_fold fold_add_arrays_other)

lemma device_run_length:
  "buf_length (heap (device_run env s) q) = buf_length (heap s q)"
  by (simp add: run_threads_fold fold_add_arrays_length)

lemma device_run_result:
  "mBufferResult s \<noteq> mBufferA s \<Longrightarrow> mBufferResult s \<noteq> mBufferB s \<Longrightarrow>
   load_float (mBufferResult s) j (device_run env s) =
     (if j < unat arrayLength
      then device_add env (load_float (mBufferA s) j s) (load_float (mBufferB s) j s)
      else load_float (mBufferResult s) j s)"
  by (simp add: run_threads_fold fold_add_arrays_contents load_float_def)

lemma prepareData_pointers:
  "mBufferA (prepareData env s) = next_buffer s"
  "mBufferB (prepareData env s) = Suc (next_buffer s)"
  "mBufferResult (prepareData env s) = Suc (Suc (next_buffer s))"
  "stdout (prepareData env s) = stdout s"
  by (simp_all add: prepareData_def newBuffer_def Let_def generateRandomFloatData_def
      generate_loop_fields)

lemma prepareData_length:
  "buf_length (heap (prepareData env s) (next_buffer s)) = unat bufferSize"
  "buf_length (heap (prepareData env s) (Suc (next_buffer s))) = unat bufferSize"
  "buf_length (heap (prepareData env s) (Suc (Suc (next_buffer s)))) = unat bufferSize"
  by (simp_all add: prepareData_def newBuffer_def Let_def generateRandomFloatData_def
      generate_loop_fields generate_loop_length)

lemma prepareData_A:
  "j < unat arrayLength \<Longrightarrow>
   load_float (mBufferA (prepareData env s)) j (prepareData env s) =
     random_float env (rand_values env (rand_calls s + j))"
  by (simp add: prepareData_pointers load_float_def)
    (simp add: prepareData_def newBuffer_def Let_def generateRandomFloatData_def
      generate_loop_fields generate_loop_other generate_loop_contents)

lemma prepareData_B:
  "j < unat arrayLength \<Longrightarrow>
   load_float (mBufferB (prepareData env s)) j (prepareData env s) =
     random_float env (rand_values env (rand_calls s + unat arrayLength + j))"
  by (simp add: prepareData_pointers load_float_def)
    (simp add: prepareData_def newBuffer_def Let_def generateRandomFloatData_def
      generate_loop_fields generate_loop_contents generate_loop_rand_calls)


section \<open>Rounding\<close>

lemma powi_neg: "0 \<le> n \<Longrightarrow> (2::rat) powi (- n) = 1 / 2 ^ nat n"
  by (simp add: power_int_minus power_int_nonneg_exp divide_inverse)

lemma ilog2_bounds:
  assumes "0 < x"
  shows "2 powi (ilog2 x) \<le> x" and "x < 2 powi (ilog2 x + 1)"
proof -
  have "2 powi (ilog2 x) \<le> x \<and> x < 2 powi (ilog2 x + 1)"
  proof (cases "1 \<le> x")
    case True
    define n where "n = \<lfloor>x\<rfloor>"
    have n1: "1 \<le> n" using True by (simp add: n_def le_floor_iff)
    then have n0: "0 < n" by simp
    have b1: "1 \<le> bitlen n" using n0 by (simp add: bitlen_alt_def)
    from bitlen_bounds [OF n0] have lo: "2 ^ nat (bitlen n - 1) \<le> n"
      and hi: "n < 2 ^ nat (bitlen n)" by simp_all
    have e: "ilog2 x = bitlen n - 1" using True by (simp add: ilog2_def n_def)
    have "(2::rat) powi (bitlen n - 1) = 2 ^ nat (bitlen n - 1)"
      using b1 by (simp add: power_int_nonneg_exp)
    also have "\<dots> = of_int (2 ^ nat (bitlen n - 1))" by simp
    also have "\<dots> \<le> of_int n" using lo by (simp only: of_int_le_iff)
    also have "\<dots> \<le> x" by (simp add: n_def)
    finally have A: "2 powi (ilog2 x) \<le> x" by (simp add: e)
    have "x < of_int (n + 1)" using floor_correct [of x] by (simp add: n_def)
    also have "\<dots> \<le> of_int (2 ^ nat (bitlen n))" using hi by (simp only: of_int_le_iff)
    also have "\<dots> = (2::rat) ^ nat (bitlen n)" by simp
    also have "\<dots> = 2 powi (bitlen n)" using b1 by (simp add: power_int_nonneg_exp)
    finally have B: "x < 2 powi (ilog2 x + 1)" by (simp add: e)
    from A B show ?thesis by simp
  next
    case False
    define z where "z = 1 / x"
    define m where "m = \<lceil>z\<rceil> - 1"
    define k where "k = bitlen m"
    have z1: "1 < z" using False assms by (simp add: z_def)
    have m1: "1 \<le> m" using z1 unfolding m_def by (simp add: less_ceiling_iff)
    then have m0: "0 < m" by simp
    have k1: "1 \<le> k" using m0 by (simp add: k_def bitlen_alt_def)
    from bitlen_bounds [OF m0] have lo: "2 ^ nat (k - 1) \<le> m" and hi: "m < 2 ^ nat k"
      by (simp_all add: k_def)
    have e: "ilog2 x = - k" using False by (simp add: ilog2_def z_def m_def k_def)
    have zm: "of_int m < z" unfolding m_def by linarith
    have zc: "z \<le> of_int (m + 1)" unfolding m_def by simp
    have "z \<le> of_int (m + 1)" by (rule zc)
    also have "\<dots> \<le> of_int (2 ^ nat k)" using hi by (simp only: of_int_le_iff)
    also have "\<dots> = (2::rat) ^ nat k" by simp
    finally have zhi: "z \<le> 2 ^ nat k" .
    have "(2::rat) ^ nat (k - 1) = of_int (2 ^ nat (k - 1))" by simp
    also have "\<dots> \<le> of_int m" using lo by (simp only: of_int_le_iff)
    also have "\<dots> < z" by (rule zm)
    finally have zlo: "2 ^ nat (k - 1) < z" .
    have xz: "x = 1 / z" by (simp add: z_def)
    have "2 powi (- k) = 1 / (2::rat) ^ nat k"
      using k1 by (subst powi_neg) simp_all
    also have "\<dots> \<le> 1 / z" using zhi z1 by (intro divide_left_mono) simp_all
    finally have "2 powi (- k) \<le> 1 / z" .
    then have A: "2 powi (ilog2 x) \<le> x" unfolding e z_def by simp
    have "x = 1 / z" by (rule xz)
    also have "\<dots> < 1 / 2 ^ nat (k - 1)" using zlo z1 by (intro divide_strict_left_mono) simp_all
    also have "\<dots> = 2 powi (- (k - 1))"
      using k1 by (subst powi_neg) simp_all
    finally have "x < 2 powi (- (k - 1))" .
    then have B: "x < 2 powi (ilog2 x + 1)" unfolding e by simp
    from A B show ?thesis by simp
  qed
  then show "2 powi (ilog2 x) \<le> x" and "x < 2 powi (ilog2 x + 1)" by simp_all
qed

lemma round_half_even_of_int: "round_half_even (of_int n) = n"
  by (simp add: round_half_even_def)

lemma round_half_even_bounds:
  "of_int (round_half_even x) \<le> x + 1 / 2" "x - 1 / 2 \<le> of_int (round_half_even x)"
proof -
  define f where "f = \<lfloor>x\<rfloor>"
  have f: "of_int f \<le> x" "x < of_int f + 1" unfolding f_def by linarith+
  have "round_half_even x = f \<and> x - of_int f \<le> 1 / 2
      \<or> round_half_even x = f + 1 \<and> 1 / 2 \<le> x - of_int f"
    unfolding round_half_even_def Let_def f_def [symmetric] by auto
  then show "of_int (round_half_even x) \<le> x + 1 / 2" "x - 1 / 2 \<le> of_int (round_half_even x)"
    using f by auto
qed

lemma round_half_even_mono:
  assumes "x \<le> y"
  shows "round_half_even x \<le> round_half_even y"
proof (cases "\<lfloor>x\<rfloor> = \<lfloor>y\<rfloor>")
  case True
  with assms show ?thesis by (auto simp: round_half_even_def Let_def)
next
  case False
  with assms have lt: "\<lfloor>x\<rfloor> + 1 \<le> \<lfloor>y\<rfloor>" using floor_mono [OF assms] by linarith
  have "round_half_even x \<le> \<lfloor>x\<rfloor> + 1" by (auto simp: round_half_even_def Let_def)
  moreover have "\<lfloor>y\<rfloor> \<le> round_half_even y" by (auto simp: round_half_even_def Let_def)
  ultimately show ?thesis using lt by linarith
qed

lemma powi_less_imp: "(2::rat) powi m < 2 powi n \<Longrightarrow> m < n"
proof (rule ccontr)
  assume a: "(2::rat) powi m < 2 powi n" and "\<not> m < n"
  then have "n \<le> m" by simp
  then have "(2::rat) powi n \<le> 2 powi m" by (intro power_int_increasing) simp_all
  with a show False by simp
qed

lemma ilog2_mono:
  assumes "0 < x" "x \<le> y"
  shows "ilog2 x \<le> ilog2 y"
proof -
  have y: "0 < y" using assms by simp
  have "2 powi (ilog2 x) \<le> x" using assms(1) by (rule ilog2_bounds)
  also have "\<dots> \<le> y" by (rule assms(2))
  also have "\<dots> < 2 powi (ilog2 y + 1)" using y by (rule ilog2_bounds)
  finally have "ilog2 x < ilog2 y + 1" by (rule powi_less_imp)
  then show ?thesis by simp
qed

lemma ilog2_unique:
  assumes "2 powi e \<le> x" "x < 2 powi (e + 1)"
  shows "ilog2 x = e"
proof -
  have x: "0 < x" using assms(1) by (rule less_le_trans [rotated]) simp
  have "2 powi e < (2::rat) powi (ilog2 x + 1)"
    using assms(1) ilog2_bounds(2) [OF x] by simp
  then have 1: "e < ilog2 x + 1" by (rule powi_less_imp)
  have "2 powi (ilog2 x) < (2::rat) powi (e + 1)"
    using assms(2) ilog2_bounds(1) [OF x] by simp
  then have 2: "ilog2 x < e + 1" by (rule powi_less_imp)
  from 1 2 show ?thesis by simp
qed

lemma round_rat_unfold:
  "x \<noteq> 0 \<Longrightarrow> round_rat x = of_int (round_half_even (x / 2 powi ulp_exp x)) * 2 powi ulp_exp x"
  by (simp add: round_rat_def)

lemma powi_pos: "0 < (2::rat) powi e"
  by simp

lemma round_rat_nonneg:
  assumes "0 \<le> x"
  shows "0 \<le> round_rat x"
proof (cases "x = 0")
  case True
  then show ?thesis by (simp add: round_rat_def)
next
  case False
  have "0 \<le> x / 2 powi ulp_exp x" using assms by simp
  from round_half_even_mono [OF this] have "0 \<le> round_half_even (x / 2 powi ulp_exp x)"
    using round_half_even_of_int [of 0] by simp
  then show ?thesis using False by (simp add: round_rat_unfold)
qed

lemma round_rat_upper:
  assumes "0 < x"
  shows "round_rat x \<le> 2 powi (ulp_exp x + 24)"
proof -
  let ?u = "(2::rat) powi ulp_exp x"
  have "x < 2 powi (ilog2 x + 1)" using assms by (rule ilog2_bounds)
  also have "\<dots> \<le> 2 powi (ulp_exp x + 24)"
    using assms by (intro power_int_increasing) (simp_all add: ulp_exp_def)
  also have "\<dots> = 2 ^ 24 * ?u" by (simp add: power_int_add)
  finally have "x / ?u \<le> of_int (2 ^ 24)" by (simp add: pos_divide_le_eq)
  from round_half_even_mono [OF this]
  have "round_half_even (x / ?u) \<le> 2 ^ 24" by (simp only: round_half_even_of_int)
  then have "of_int (round_half_even (x / ?u)) \<le> (2 ^ 24 :: rat)"
    by (metis of_int_le_iff of_int_numeral of_int_power)
  then have "of_int (round_half_even (x / ?u)) * ?u \<le> 2 ^ 24 * ?u"
    by (intro mult_right_mono) simp_all
  then show ?thesis using assms by (simp add: round_rat_unfold power_int_add)
qed

lemma round_rat_lower:
  assumes "0 < x" "- 126 \<le> ilog2 x"
  shows "2 powi (ilog2 x) \<le> round_rat x"
proof -
  let ?u = "(2::rat) powi ulp_exp x"
  have e: "ulp_exp x = ilog2 x - 23" using assms by (simp add: ulp_exp_def)
  have "2 ^ 23 * ?u = 2 powi (ilog2 x)" by (simp add: e power_int_diff)
  also have "\<dots> \<le> x" using assms(1) by (rule ilog2_bounds)
  finally have "of_int (2 ^ 23) \<le> x / ?u" by (simp add: pos_le_divide_eq)
  from round_half_even_mono [OF this]
  have "2 ^ 23 \<le> round_half_even (x / ?u)" by (simp only: round_half_even_of_int)
  then have "(2 ^ 23 :: rat) \<le> of_int (round_half_even (x / ?u))"
    by (metis of_int_le_iff of_int_numeral of_int_power)
  then have "2 ^ 23 * ?u \<le> of_int (round_half_even (x / ?u)) * ?u"
    by (intro mult_right_mono) simp_all
  have "2 powi (ilog2 x) = 2 ^ 23 * ?u" by (simp add: e power_int_diff)
  also have "\<dots> \<le> of_int (round_half_even (x / ?u)) * ?u" by fact
  also have "\<dots> = round_rat x" using assms by (simp add: round_rat_unfold)
  finally show ?thesis .
qed

lemma round_rat_mono_pos:
  assumes "0 < x" "x \<le> y"
  shows "round_rat x \<le> round_rat y"
proof -
  have y: "0 < y" using assms by simp
  have le: "ulp_exp x \<le> ulp_exp y"
    using ilog2_mono [OF assms] assms y by (simp add: ulp_exp_def)
  show ?thesis
  proof (cases "ulp_exp x = ulp_exp y")
    case True
    let ?u = "(2::rat) powi ulp_exp y"
    have "x / ?u \<le> y / ?u" using assms by (simp add: divide_right_mono)
    from round_half_even_mono [OF this]
    have "of_int (round_half_even (x / ?u)) * ?u \<le> of_int (round_half_even (y / ?u)) * ?u"
      by (intro mult_right_mono) simp_all
    then show ?thesis using assms y True by (simp add: round_rat_unfold)
  next
    case False
    with le have lt: "ulp_exp x < ulp_exp y" by simp
    then have ey: "- 126 \<le> ilog2 y" "ulp_exp y = ilog2 y - 23"
      using y by (auto simp: ulp_exp_def)
    have "round_rat x \<le> 2 powi (ulp_exp x + 24)" using assms(1) by (rule round_rat_upper)
    also have "\<dots> \<le> 2 powi (ilog2 y)" using lt ey by (intro power_int_increasing) simp_all
    also have "\<dots> \<le> round_rat y" using y ey(1) by (rule round_rat_lower)
    finally show ?thesis .
  qed
qed

lemma round_rat_mono:
  assumes "0 \<le> x" "x \<le> y"
  shows "round_rat x \<le> round_rat y"
proof (cases "x = 0")
  case True
  then show ?thesis using assms round_rat_nonneg [of y] by (simp add: round_rat_def)
next
  case False
  with assms show ?thesis by (intro round_rat_mono_pos) simp_all
qed

lemma round_rat_exact:
  assumes "x \<noteq> 0" "x / 2 powi ulp_exp x = of_int m"
  shows "round_rat x = x"
proof -
  have "round_rat x = of_int m * 2 powi ulp_exp x"
    using assms by (simp add: round_rat_unfold round_half_even_of_int)
  also have "\<dots> = x" using assms(2) [symmetric] by simp
  finally show ?thesis .
qed

lemma ilog2_pow2: "ilog2 (2 ^ k) = int k"
  by (rule ilog2_unique) (simp_all add: power_int_add)

lemma ilog2_1: "ilog2 1 = 0"
  using ilog2_pow2 [of 0] by simp

lemma round_rat_int:
  assumes "\<bar>n\<bar> \<le> 2 ^ 24"
  shows "round_rat (of_int n) = of_int n"
proof (cases "n = 0")
  case True
  then show ?thesis by (simp add: round_rat_def)
next
  case False
  define x :: rat where "x = of_int n"
  have x0: "x \<noteq> 0" using False by (simp add: x_def)
  have ax: "\<bar>x\<bar> = of_int \<bar>n\<bar>" by (simp add: x_def)
  have a1: "1 \<le> \<bar>x\<bar>" using False unfolding ax by (simp add: int_one_le_iff_zero_less)
  have a2: "\<bar>x\<bar> \<le> 2 ^ 24" unfolding ax using assms
    by (metis of_int_le_iff of_int_numeral of_int_power)
  have "ilog2 1 \<le> ilog2 \<bar>x\<bar>" using a1 by (intro ilog2_mono) simp_all
  then have e0: "0 \<le> ilog2 \<bar>x\<bar>" by (simp only: ilog2_1)
  have "ilog2 \<bar>x\<bar> \<le> ilog2 (2 ^ 24)" using a1 a2 by (intro ilog2_mono) simp_all
  then have e24: "ilog2 \<bar>x\<bar> \<le> 24" by (simp only: ilog2_pow2)
  have u: "ulp_exp x = ilog2 \<bar>x\<bar> - 23" using e0 by (simp add: ulp_exp_def)
  show ?thesis
  proof (cases "ilog2 \<bar>x\<bar> \<le> 23")
    case True
    define k where "k = nat (23 - ilog2 \<bar>x\<bar>)"
    have "ulp_exp x = - int k" using True by (simp add: u k_def)
    then have "x / 2 powi ulp_exp x = x * 2 ^ k" by (simp add: power_int_minus divide_inverse)
    also have "\<dots> = of_int (n * 2 ^ k)" by (simp add: x_def)
    finally show ?thesis using x0 unfolding x_def [symmetric] by (rule round_rat_exact [rotated])
  next
    case False
    with e24 have e: "ilog2 \<bar>x\<bar> = 24" by simp
    have "2 powi (ilog2 \<bar>x\<bar>) \<le> \<bar>x\<bar>" using a1 by (intro ilog2_bounds) simp
    then have "\<bar>x\<bar> = 2 ^ 24" using a2 by (simp add: e)
    then have "of_int \<bar>n\<bar> = (of_int (2 ^ 24) :: rat)" by (simp add: ax)
    then have "\<bar>n\<bar> = 2 ^ 24" by (simp only: of_int_eq_iff)
    then have n: "n = 16777216 \<or> n = - 16777216" by auto
    have "ulp_exp x = 1" by (simp add: u e)
    then have "x / 2 powi ulp_exp x = of_int (n div 2)" using n by (auto simp: x_def)
    then show ?thesis using x0 unfolding x_def [symmetric] by (rule round_rat_exact [rotated])
  qed
qed

lemma round_rat_1: "round_rat 1 = 1"
  using round_rat_int [of 1] by simp

lemma round_rat_pow31: "round_rat (2 ^ 31) = 2 ^ 31"
proof -
  have "ulp_exp (2 ^ 31) = 8" by (simp add: ulp_exp_def ilog2_pow2 [of 31, simplified])
  then have "(2 ^ 31 :: rat) / 2 powi ulp_exp (2 ^ 31) = of_int (2 ^ 23)" by simp
  then show ?thesis by (intro round_rat_exact) simp_all
qed

lemma round_f32_range:
  assumes "0 \<le> x" "x \<le> 2 ^ 31"
  shows "round_f32 x = Fin (round_rat x)" "0 \<le> round_rat x" "round_rat x \<le> 2 ^ 31"
proof -
  show 0: "0 \<le> round_rat x" using assms(1) by (rule round_rat_nonneg)
  have "round_rat x \<le> round_rat (2 ^ 31)" using assms by (rule round_rat_mono)
  then show 1: "round_rat x \<le> 2 ^ 31" by (simp only: round_rat_pow31)
  have "(2 ^ 31 :: rat) < 2 ^ 128" by simp
  with 1 have "round_rat x < 2 ^ 128" by (rule le_less_trans)
  with 0 assms(1) show "round_f32 x = Fin (round_rat x)"
    by (simp add: round_f32_def Let_def)
qed

lemma random_float_range:
  assumes M: "0 < RAND_MAX env" "RAND_MAX env < 2 ^ 31"
    and r: "0 \<le> r" "r \<le> RAND_MAX env"
  shows "\<exists>q. random_float env r = Fin q \<and> 0 \<le> q \<and> q \<le> 1"
proof -
  define a where "a = round_rat (of_int r)"
  define b where "b = round_rat (of_int (RAND_MAX env))"
  have rM: "(of_int r :: rat) \<le> of_int (RAND_MAX env)" using r by simp
  have M31: "(of_int (RAND_MAX env) :: rat) \<le> 2 ^ 31"
    using M(2) by (metis less_imp_le of_int_le_iff of_int_numeral of_int_power)
  have r31: "(of_int r :: rat) \<le> 2 ^ 31" using rM M31 by simp
  have fa: "int_to_float r = Fin a" and a0: "0 \<le> a"
    using round_f32_range [of "of_int r"] r(1) r31 by (simp_all add: int_to_float_def a_def)
  have fb: "int_to_float (RAND_MAX env) = Fin b"
    using round_f32_range [of "of_int (RAND_MAX env)"] M(1) M31
    by (simp add: int_to_float_def b_def)
  have "round_rat 1 \<le> b" unfolding b_def using M(1) by (intro round_rat_mono) simp_all
  then have b1: "1 \<le> b" by (simp only: round_rat_1)
  have ab: "a \<le> b" unfolding a_def b_def using r(1) rM by (intro round_rat_mono) simp_all
  show ?thesis
  proof (cases "a = 0")
    case True
    with b1 show ?thesis
      by (simp add: random_float_def fa fb float_div_def is_inf_def is_zero_def)
  next
    case False
    with a0 b1 ab have q: "0 \<le> a / b" "a / b \<le> 1" by simp_all
    have q31: "a / b \<le> 2 ^ 31" using q(2) by simp
    have "round_rat (a / b) \<le> round_rat 1" using q by (rule round_rat_mono)
    then have le1: "round_rat (a / b) \<le> 1" by (simp only: round_rat_1)
    have "random_float env r = round_f32 (a / b)"
      using False b1 by (simp add: random_float_def fa fb float_div_def is_inf_def is_zero_def)
    also have "\<dots> = Fin (round_rat (a / b))" using q(1) q31 by (rule round_f32_range)
    finally show ?thesis using le1 round_rat_nonneg [OF q(1)] by simp
  qed
qed

lemma bandwidth_const:
  "float_div (float_div (float_div (float_mul (Fin 2000) (int_to_float (uint bufferSize)))
      (int_to_float 1024)) (int_to_float 1024)) (int_to_float 1024) = Fin 125"
  by code_simp

lemma bandwidth_0: "bandwidth 0 = PInf"
  by code_simp


lemma float_ne_iff: "float_ne x y = (\<not> float_eq x y)"
  by (simp add: float_ne_def)

lemma uniform_state_values:
  "load_float (mBufferA (uniform_state a b r)) i (uniform_state a b r) = a"
  "load_float (mBufferB (uniform_state a b r)) i (uniform_state a b r) = b"
  "load_float (mBufferResult (uniform_state a b r)) i (uniform_state a b r) = r"
  by (simp_all add: uniform_state_def load_float_def)

lemma round_f32_0: "round_f32 0 = Fin 0"
  by code_simp

lemma round_f32_1: "round_f32 1 = Fin 1"
  by code_simp

lemma verifyResults_pass:
  "(\<forall>i<unat arrayLength. float_eq (result_at s i) (host_sum s i)) \<Longrightarrow> verifyResults s = Returned s"
  by (simp add: verifyResults_def verify_loop_pass)

lemma verifyResults_fail:
  "k < unat arrayLength \<Longrightarrow> \<not> float_eq (result_at s k) (host_sum s k)
     \<Longrightarrow> (\<forall>j<k. float_eq (result_at s j) (host_sum s j))
     \<Longrightarrow> verifyResults s = Aborted (printf (ComputeErrorLine k (result_at s k) (host_sum s k)) s)"
  unfolding verifyResults_def by (rule verify_loop_fail) simp_all

lemma verifyResults_Returned_iff:
  "verifyResults s = Returned s \<longleftrightarrow>
     (\<forall>i<unat arrayLength. float_eq (result_at s i) (host_sum s i))"
proof
  assume r: "verifyResults s = Returned s"
  show "\<forall>i<unat arrayLength. float_eq (result_at s i) (host_sum s i)"
  proof (rule ccontr)
    assume "\<not> (\<forall>i<unat arrayLength. float_eq (result_at s i) (host_sum s i))"
    then have "\<exists>i<unat arrayLength. \<not> float_eq (result_at s i) (host_sum s i)" by simp
    from first_mismatch [OF this] obtain k where k: "k < unat arrayLength"
      "\<not> float_eq (result_at s k) (host_sum s k)" "\<forall>j<k. float_eq (result_at s j) (host_sum s j)"
      by blast
    from verifyResults_fail [OF k] r show False by simp
  qed
next
  assume "\<forall>i<unat arrayLength. float_eq (result_at s i) (host_sum s i)"
  then show "verifyResults s = Returned s" by (rule verifyResults_pass)
qed

lemma verifyResults_aborted_iff:
  "aborted (verifyResults s) \<longleftrightarrow>
     (\<exists>i<unat arrayLength. float_ne (result_at s i) (host_sum s i))"
proof
  assume a: "aborted (verifyResults s)"
  show "\<exists>i<unat arrayLength. float_ne (result_at s i) (host_sum s i)"
  proof (rule ccontr)
    assume "\<not> (\<exists>i<unat arrayLength. float_ne (result_at s i) (host_sum s i))"
    then have "\<forall>i<unat arrayLength. float_eq (result_at s i) (host_sum s i)"
      by (simp add: float_ne_def)
    from verifyResults_pass [OF this] a show False by simp
  qed
next
  assume "\<exists>i<unat arrayLength. float_ne (result_at s i) (host_sum s i)"
  then have "\<exists>i<unat arrayLength. \<not> float_eq (result_at s i) (host_sum s i)"
    by (simp add: float_ne_def)
  from first_mismatch [OF this] obtain k where k: "k < unat arrayLength"
    "\<not> float_eq (result_at s k) (host_sum s k)" "\<forall>j<k. float_eq (result_at s j) (host_sum s j)"
    by blast
  from verifyResults_fail [OF k] show "aborted (verifyResults s)" by simp
qed


lemma report_fields:
  "heap (report env s) = heap s"
  "mBufferA (report env s) = mBufferA s"
  "mBufferB (report env s) = mBufferB s"
  "mBufferResult (report env s) = mBufferResult s"
  "stdout (report env s) =
     stdout s @ [ElapsedLine (elapsed_ms env), BandwidthLine (bandwidth (elapsed_ms env))]"
  by (simp_all add: printf_def)

lemma stdout_printf: "stdout (printf l s) = stdout s @ [l]"
  by (simp add: printf_def)

lemma load_float_report: "load_float p i (report env s) = load_float p i s"
  by (simp add: load_float_def printf_def)

lemma prepared_run_A:
  assumes "i < unat arrayLength"
  shows "load_float (mBufferA (prepareData env s)) i (device_run env (prepareData env s)) =
     random_float env (rand_values env (rand_calls s + i))"
proof -
  have "heap (device_run env (prepareData env s)) (mBufferA (prepareData env s))
      = heap (prepareData env s) (mBufferA (prepareData env s))"
    by (rule device_run_other) (simp add: prepareData_pointers)
  then show ?thesis using prepareData_A [OF assms, of env s] by (simp only: load_float_def)
qed

lemma prepared_run_B:
  assumes "i < unat arrayLength"
  shows "load_float (mBufferB (prepareData env s)) i (device_run env (prepareData env s)) =
     random_float env (rand_values env (rand_calls s + unat arrayLength + i))"
proof -
  have "heap (device_run env (prepareData env s)) (mBufferB (prepareData env s))
      = heap (prepareData env s) (mBufferB (prepareData env s))"
    by (rule device_run_other) (simp add: prepareData_pointers)
  then show ?thesis using prepareData_B [OF assms, of env s] by (simp only: load_float_def)
qed

lemma prepared_run_Result:
  assumes "i < unat arrayLength"
  shows "load_float (mBufferResult (prepareData env s)) i (device_run env (prepareData env s)) =
     device_add env (random_float env (rand_values env (rand_calls s + i)))
       (random_float env (rand_values env (rand_calls s + unat arrayLength + i)))"
proof -
  have "mBufferResult (prepareData env s) \<noteq> mBufferA (prepareData env s)"
    "mBufferResult (prepareData env s) \<noteq> mBufferB (prepareData env s)"
    by (simp_all add: prepareData_pointers)
  from device_run_result [OF this, of i env] assms show ?thesis
    by (simp only: prepareData_A prepareData_B if_True)
qed

text \<open>The state in which a run verifies: prepared, computed by the device, reported.\<close>

lemma run_values:
  assumes "i < unat arrayLength"
  shows "load_float (mBufferA (report env (device_run env (prepareData env s)))) i
           (report env (device_run env (prepareData env s)))
         = random_float env (rand_values env (rand_calls s + i))"
    and "load_float (mBufferB (report env (device_run env (prepareData env s)))) i
           (report env (device_run env (prepareData env s)))
         = random_float env (rand_values env (rand_calls s + unat arrayLength + i))"
    and "result_at (report env (device_run env (prepareData env s))) i
         = device_add env (random_float env (rand_values env (rand_calls s + i)))
             (random_float env (rand_values env (rand_calls s + unat arrayLength + i)))"
  using assms
  by (simp_all only: report_fields load_float_report device_run_fields
      prepared_run_A prepared_run_B prepared_run_Result)

lemma run_stdout:
  "stdout (report env (device_run env (prepareData env s))) =
     stdout s @ [ElapsedLine (elapsed_ms env), BandwidthLine (bandwidth (elapsed_ms env))]"
  by (simp only: report_fields device_run_fields) (simp only: prepareData_pointers)

lemma main_run:
  assumes "library_compiles env" "function_found env" "pipeline_created env" "queue_created env"
    "command_buffer_created env" "encoder_created env" "maxTotalThreadsPerThreadgroup env \<noteq> 0"
  shows "main env = verifyResults (report env (device_run env (prepareData env initial_state)))"
  using assms by (simp add: main_def MetalAdder_def sendComputeCommand_run)

lemma half: "float_div (int_to_float 1073741824) (int_to_float 2147483647) = Fin (1 / 2)"
  by code_simp

lemma one: "float_div (int_to_float 2147483647) (int_to_float 2147483647) = Fin 1"
  by code_simp

lemma bandwidth_5: "bandwidth 5 = Fin 25"
  by code_simp

lemma bandwidth_minus_3: "bandwidth (- 3) = Fin (- (10922667 / 262144))"
  by code_simp

lemma sendComputeCommand_output:
  assumes "command_buffer_created env" "encoder_created env"
    "maxTotalThreadsPerThreadgroup env \<noteq> 0"
  shows "\<exists>rest. stdout (final (sendComputeCommand env s)) =
           stdout s @ [ElapsedLine (elapsed_ms env), BandwidthLine (bandwidth (elapsed_ms env))]
             @ rest
         \<and> (aborted (sendComputeCommand env s) \<longrightarrow> (\<exists>k r v. rest = [ComputeErrorLine k r v]))
         \<and> (\<not> aborted (sendComputeCommand env s) \<longrightarrow> rest = [])"
proof -
  let ?s3 = "report env (device_run env s)"
  have run: "sendComputeCommand env s = verifyResults ?s3"
    using assms by (rule sendComputeCommand_run)
  have out: "stdout ?s3 =
      stdout s @ [ElapsedLine (elapsed_ms env), BandwidthLine (bandwidth (elapsed_ms env))]"
    by (simp only: report_fields device_run_fields)
  show ?thesis
  proof (rule disjE [OF verifyResults_cases [of ?s3]])
    assume "(\<forall>i<unat arrayLength. float_eq (result_at ?s3 i) (host_sum ?s3 i))
        \<and> verifyResults ?s3 = Returned ?s3"
    then have "verifyResults ?s3 = Returned ?s3" by (rule conjunct2)
    then show ?thesis unfolding run
      by (intro exI [of _ "[]"]) (simp add: stdout_printf device_run_fields)
  next
    assume "\<exists>k<unat arrayLength. \<not> float_eq (result_at ?s3 k) (host_sum ?s3 k)
        \<and> (\<forall>j<k. float_eq (result_at ?s3 j) (host_sum ?s3 j))
        \<and> verifyResults ?s3
            = Aborted (printf (ComputeErrorLine k (result_at ?s3 k) (host_sum ?s3 k)) ?s3)"
    then obtain k where "verifyResults ?s3
        = Aborted (printf (ComputeErrorLine k (result_at ?s3 k) (host_sum ?s3 k)) ?s3)"
      by blast
    then show ?thesis unfolding run
      by (intro exI [of _ "[ComputeErrorLine k (result_at ?s3 k) (host_sum ?s3 k)]"])
        (simp add: stdout_printf device_run_fields)
  qed
qed


lemma sample_run_values:
  assumes "RAND_MAX env = 2147483647" "rand_values env = (\<lambda>k. 1073741824)"
    and "i < unat arrayLength"
  shows "load_float (mBufferA (report env (device_run env (prepareData env s)))) i
           (report env (device_run env (prepareData env s))) = Fin (1 / 2)"
    and "load_float (mBufferB (report env (device_run env (prepareData env s)))) i
           (report env (device_run env (prepareData env s))) = Fin (1 / 2)"
    and "result_at (report env (device_run env (prepareData env s))) i
           = device_add env (Fin (1 / 2)) (Fin (1 / 2))"
  using assms(1,2) by (simp_all only: run_values [OF assms(3)] random_float_def half)

lemma faulty_run:
  "main faulty_device_env =
     Aborted (printf (ComputeErrorLine 0 (Fin (1 / 2)) (Fin 1))
       (report faulty_device_env
          (device_run faulty_device_env (prepareData faulty_device_env initial_state))))"
proof -
  let ?env = faulty_device_env
  let ?s3 = "report ?env (device_run ?env (prepareData ?env initial_state))"
  have env: "RAND_MAX ?env = 2147483647" "rand_values ?env = (\<lambda>k. 1073741824)"
    "device_add ?env = (\<lambda>x y. x)"
    by (simp_all add: faulty_device_env_def sample_env_def)
  have m: "main ?env = verifyResults ?s3"
    by (rule main_run) (simp_all add: faulty_device_env_def sample_env_def)
  have 0: "0 < unat arrayLength" by (simp add: unat_arrayLength)
  have r: "result_at ?s3 0 = Fin (1 / 2)"
    by (simp only: sample_run_values(3) [OF env(1,2) 0] env(3))
  have h: "host_sum ?s3 0 = Fin 1"
    by (simp only: sample_run_values(1,2) [OF env(1,2) 0]) (simp add: round_f32_1)
  have "verifyResults ?s3 = Aborted (printf (ComputeErrorLine 0 (result_at ?s3 0) (host_sum ?s3 0)) ?s3)"
    using 0 by (rule verifyResults_fail) (simp_all only: r h, simp_all add: float_eq_def)
  then show ?thesis by (simp only: m r h)
qed

lemma elapsed_sample: "elapsed_ms faulty_device_env = 5" "elapsed_ms sample_env = 5"
  "elapsed_ms clock_back_env = - 3" "elapsed_ms same_ms_env = 0"
  by (simp_all add: faulty_device_env_def clock_back_env_def same_ms_env_def sample_env_def
      duration_cast_ms_def)




lemma sendComputeCommand_length:
  "buf_length (heap (final (sendComputeCommand env s)) p) = buf_length (heap s p)"
proof (cases "command_buffer_created env \<and> encoder_created env
    \<and> maxTotalThreadsPerThreadgroup env \<noteq> 0")
  case True
  then have "sendComputeCommand env s = verifyResults (report env (device_run env s))"
    by (intro sendComputeCommand_run) simp_all
  then have "heap (final (sendComputeCommand env s)) = heap (device_run env s)"
    by (simp only: verifyResults_def verify_loop_heap report_fields)
  then show ?thesis by (simp only: device_run_length)
next
  case False
  then consider "\<not> command_buffer_created env" | "\<not> encoder_created env"
    | "command_buffer_created env" "encoder_created env" "maxTotalThreadsPerThreadgroup env = 0"
    by blast
  then show ?thesis
  proof cases
    case 1
    then show ?thesis by (simp add: sendComputeCommand_def)
  next
    case 2
    then show ?thesis by (simp add: sendComputeCommand_def)
  next
    case 3
    have "grid_threads env (MTLSize_Make (ucast arrayLength) 1 1)
        (MTLSize_Make (threadGroupSize env) 1 1) = None"
      using 3(3) by (simp add: grid_threads_def MTLSize_Make_def threadGroupSize_def)
    then have "commit_and_wait env (encodeAddCommand env s new_encoder) s = None"
      by (simp add: commit_and_wait_def dispatched_encodeAddCommand)
    then show ?thesis using 3 by (simp add: sendComputeCommand_def Let_def)
  qed
qed


lemma int_to_float_exact:
  assumes "\<bar>n\<bar> \<le> 2 ^ 24"
  shows "int_to_float n = Fin (of_int n)"
proof -
  have r: "round_rat (of_int n) = of_int n" using assms by (rule round_rat_int)
  have "\<bar>of_int n :: rat\<bar> \<le> 2 ^ 24"
    using assms by (metis of_int_abs of_int_le_iff of_int_numeral of_int_power)
  then have b: "(of_int n :: rat) \<le> 2 ^ 24" "- (2 ^ 24) \<le> (of_int n :: rat)"
    by (simp_all add: abs_le_iff)
  have "(of_int n :: rat) < 2 ^ 128" using b(1) by (rule le_less_trans) simp
  moreover have "- (2 ^ 128) < (of_int n :: rat)" using _ b(2) by (rule less_le_trans) simp
  ultimately show ?thesis by (simp add: int_to_float_def round_f32_def r)
qed

lemma bandwidth_unfold: "bandwidth t = float_div (Fin 125) (int_to_float t)"
  by (simp only: bandwidth_def bandwidth_const)

lemma bandwidth_exact:
  assumes "t \<noteq> 0" "\<bar>t\<bar> \<le> 2 ^ 24"
  shows "bandwidth t = round_f32 (125 / of_int t)"
  using assms(1)
  by (simp add: bandwidth_unfold int_to_float_exact [OF assms(2)] float_div_def is_zero_def
      is_inf_def)

lemma duration_cast_ms_nonneg:
  assumes "0 < ticks_per_ms env" "0 \<le> d"
  shows "0 \<le> duration_cast_ms env d"
  using assms by (simp add: duration_cast_ms_def pos_imp_zdiv_nonneg_iff)


lemma sample_run_passes:
  assumes "RAND_MAX env = 2147483647" "rand_values env = (\<lambda>k. 1073741824)"
    "device_add env = float_add"
  shows "verifyResults (report env (device_run env (prepareData env s)))
       = Returned (report env (device_run env (prepareData env s)))"
proof (rule verifyResults_pass, intro allI impI)
  fix i assume i: "i < unat arrayLength"
  show "float_eq (result_at (report env (device_run env (prepareData env s))) i)
      (host_sum (report env (device_run env (prepareData env s))) i)"
    by (simp only: sample_run_values [OF assms(1,2) i] assms(3))
      (simp add: round_f32_1 float_eq_def)
qed


lemma sint_diff:
  fixes a b :: "64 word"
  assumes "- (2 ^ 63) \<le> sint b - sint a" "sint b - sint a < 2 ^ 63"
  shows "sint (b - a) = sint b - sint a"
proof -
  have "sint (b - a) = signed_take_bit 63 (sint b - sint a)"
    by (simp add: sint_word_ariths)
  also have "\<dots> = sint b - sint a" using assms by (rule signed_take_bit_int_eq_self)
  finally show ?thesis .
qed

lemma duration_cast_ms_nonneg_iff:
  assumes "0 < ticks_per_ms env"
  shows "0 \<le> duration_cast_ms env d \<longleftrightarrow> - ticks_per_ms env < d"
proof (cases "0 \<le> d")
  case True
  then show ?thesis using assms by (simp add: duration_cast_ms_def pos_imp_zdiv_nonneg_iff)
next
  case False
  then have d: "0 < - d" by simp
  have "0 < (- d) div ticks_per_ms env \<longleftrightarrow> ticks_per_ms env \<le> - d"
    using assms by (rule pos_imp_zdiv_pos_iff)
  then have "(- d) div ticks_per_ms env \<le> 0 \<longleftrightarrow> - d < ticks_per_ms env" by linarith
  then show ?thesis using False by (simp add: duration_cast_ms_def) linarith
qed

lemma random_float_max:
  assumes "0 < RAND_MAX env" "RAND_MAX env < 2 ^ 31"
  shows "random_float env (RAND_MAX env) = Fin 1"
proof -
  define b where "b = round_rat (of_int (RAND_MAX env))"
  have M31: "(of_int (RAND_MAX env) :: rat) \<le> 2 ^ 31"
    using assms(2) by (metis less_imp_le of_int_le_iff of_int_numeral of_int_power)
  have fb: "int_to_float (RAND_MAX env) = Fin b"
    using round_f32_range [of "of_int (RAND_MAX env)"] assms(1) M31
    by (simp add: int_to_float_def b_def)
  have "round_rat 1 \<le> b" unfolding b_def using assms(1) by (intro round_rat_mono) simp_all
  then have b1: "1 \<le> b" by (simp only: round_rat_1)
  then have "random_float env (RAND_MAX env) = round_f32 (b / b)"
    by (simp add: random_float_def fb float_div_def is_inf_def is_zero_def)
  also have "b / b = 1" using b1 by simp
  finally show ?thesis by (simp only: round_f32_1)
qed

lemma prepareData_floats:
  "buffer_floats (mBufferA (prepareData env s)) (prepareData env s) =
     map (\<lambda>i. random_float env (rand_values env (rand_calls s + i))) [0 ..< unat arrayLength]"
  "buffer_floats (mBufferB (prepareData env s)) (prepareData env s) =
     map (\<lambda>i. random_float env (rand_values env (rand_calls s + unat arrayLength + i)))
       [0 ..< unat arrayLength]"
  unfolding buffer_floats_def by (rule map_cong [OF refl], simp add: prepareData_A prepareData_B)+

lemma prepareData_floats_cong:
  assumes "RAND_MAX env1 = RAND_MAX env2" "rand_values env1 = rand_values env2"
    "rand_calls s1 = rand_calls s2"
  shows "buffer_floats (mBufferA (prepareData env1 s1)) (prepareData env1 s1)
       = buffer_floats (mBufferA (prepareData env2 s2)) (prepareData env2 s2)"
    and "buffer_floats (mBufferB (prepareData env1 s1)) (prepareData env1 s1)
       = buffer_floats (mBufferB (prepareData env2 s2)) (prepareData env2 s2)"
  using assms by (simp_all only: prepareData_floats random_float_def)

lemma sendComputeCommand_aborted_iff:
  assumes "command_buffer_created env" "encoder_created env"
    "maxTotalThreadsPerThreadgroup env \<noteq> 0"
  shows "aborted (sendComputeCommand env s) \<longleftrightarrow>
    (\<exists>i<unat arrayLength. float_ne (result_at (device_run env s) i) (host_sum (device_run env s) i))"
  using verifyResults_aborted_iff [of "report env (device_run env s)"]
  by (simp only: sendComputeCommand_run [OF assms] report_fields load_float_report)





section \<open>The claims\<close>

text \<open>
  C5. The thread-group size of the dispatch never exceeds the minimum of the pipeline's
  \<^verbatim>\<open>maxTotalThreadsPerThreadgroup\<close> and \<^verbatim>\<open>arrayLength\<close>, whatever value the pipeline
  reports: the encoder records a grid of \<^verbatim>\<open>arrayLength\<close> by 1 by 1 threads and a thread
  group of \<open>threadGroupSize env\<close> by 1 by 1, and that size is at most both bounds.
\<close>

theorem threadgroup_size_bounded:
  "dispatched (encodeAddCommand env s enc) =
     Some (MTLSize_Make (ucast arrayLength) 1 1, MTLSize_Make (threadGroupSize env) 1 1)
   \<and> threadGroupSize env \<le> min (maxTotalThreadsPerThreadgroup env) (ucast arrayLength)
   \<and> unat (threadGroupSize env)
       \<le> min (unat (maxTotalThreadsPerThreadgroup env)) (unat arrayLength)"
proof -
  have "unat (threadGroupSize env) \<le> unat (maxTotalThreadsPerThreadgroup env)"
    using threadGroupSize_le_max [of env] by (simp add: word_le_nat_alt)
  moreover have "unat (threadGroupSize env) \<le> unat arrayLength"
    using threadGroupSize_le_len [of env]
    by (simp add: word_le_nat_alt ucast_arrayLength unat_arrayLength)
  ultimately show ?thesis
    by (simp add: dispatched_encodeAddCommand threadGroupSize_le_max threadGroupSize_le_len)
qed

text \<open>
  C9. Verification on the host only reads the buffers: whether \<^verbatim>\<open>verifyResults\<close> returns
  or aborts, the heap of buffers (the lengths and the contents of A, B and Result) and
  the three buffer pointers are what they were when it was entered. It only appends to
  the output.
\<close>

theorem verifyResults_reads_only:
  "heap (final (verifyResults s)) = heap s
   \<and> mBufferA (final (verifyResults s)) = mBufferA s
   \<and> mBufferB (final (verifyResults s)) = mBufferB s
   \<and> mBufferResult (final (verifyResults s)) = mBufferResult s"
  by (simp add: verifyResults_def verify_loop_heap verify_loop_pointers)

text \<open>
  C1 (as amended). For every index below \<^verbatim>\<open>arrayLength\<close> the verification compares
  \<^verbatim>\<open>Result[i]\<close> with \<^verbatim>\<open>A[i] + B[i]\<close> by the float operator \<^verbatim>\<open>!=\<close>, without tolerance:
  it returns exactly when the two are equal in the sense of \<^verbatim>\<open>==\<close> at every index, it
  aborts exactly when they differ at some index, and it then stops at the first such
  index, after printing that index and the two values. Equality is that of the
  operator, not identity of bits: the two zeros are equal and a NaN differs from itself.
\<close>

theorem verifyResults_exhaustive:
  "(verifyResults s = Returned s \<longleftrightarrow>
      (\<forall>i<unat arrayLength. float_eq (result_at s i) (host_sum s i)))
   \<and> (aborted (verifyResults s) \<longleftrightarrow>
      (\<exists>i<unat arrayLength. float_ne (result_at s i) (host_sum s i)))
   \<and> (\<forall>k<unat arrayLength.
        float_ne (result_at s k) (host_sum s k)
        \<and> (\<forall>j<k. float_eq (result_at s j) (host_sum s j))
        \<longrightarrow> verifyResults s = Aborted (printf (ComputeErrorLine k (result_at s k) (host_sum s k)) s))"
proof (intro conjI allI impI)
  show "verifyResults s = Returned s \<longleftrightarrow>
      (\<forall>i<unat arrayLength. float_eq (result_at s i) (host_sum s i))"
    by (rule verifyResults_Returned_iff)
  show "aborted (verifyResults s) \<longleftrightarrow>
      (\<exists>i<unat arrayLength. float_ne (result_at s i) (host_sum s i))"
    by (rule verifyResults_aborted_iff)
next
  fix k
  assume k: "k < unat arrayLength"
    and m: "float_ne (result_at s k) (host_sum s k)
        \<and> (\<forall>j<k. float_eq (result_at s j) (host_sum s j))"
  from m have "\<not> float_eq (result_at s k) (host_sum s k)" by (simp add: float_ne_def)
  moreover from m have "\<forall>j<k. float_eq (result_at s j) (host_sum s j)" by simp
  ultimately show "verifyResults s =
      Aborted (printf (ComputeErrorLine k (result_at s k) (host_sum s k)) s)"
    using k by (intro verifyResults_fail)
qed

theorem verifyResults_exhaustive_witness:
  "verifyResults (uniform_state (Fin (1 / 2)) (Fin (1 / 2)) (Fin 1))
     = Returned (uniform_state (Fin (1 / 2)) (Fin (1 / 2)) (Fin 1))
   \<and> verifyResults (uniform_state (Fin (1 / 2)) (Fin (1 / 2)) (Fin (1 / 2)))
     = Aborted (printf (ComputeErrorLine 0 (Fin (1 / 2)) (Fin 1))
         (uniform_state (Fin (1 / 2)) (Fin (1 / 2)) (Fin (1 / 2))))"
proof
  show "verifyResults (uniform_state (Fin (1 / 2)) (Fin (1 / 2)) (Fin 1))
     = Returned (uniform_state (Fin (1 / 2)) (Fin (1 / 2)) (Fin 1))"
    using verifyResults_exhaustive [of "uniform_state (Fin (1 / 2)) (Fin (1 / 2)) (Fin 1)"]
    by (simp add: uniform_state_values round_f32_1 float_eq_def)
  have "0 < unat arrayLength" by (simp add: unat_arrayLength)
  then show "verifyResults (uniform_state (Fin (1 / 2)) (Fin (1 / 2)) (Fin (1 / 2)))
     = Aborted (printf (ComputeErrorLine 0 (Fin (1 / 2)) (Fin 1))
         (uniform_state (Fin (1 / 2)) (Fin (1 / 2)) (Fin (1 / 2))))"
    using verifyResults_exhaustive [of "uniform_state (Fin (1 / 2)) (Fin (1 / 2)) (Fin (1 / 2))"]
    by (simp add: uniform_state_values round_f32_1 float_eq_def float_ne_def)
qed

text \<open>
  C1 as stated fails: with A and B all +0 and Result all -0 the verification returns,
  although the bits of \<^verbatim>\<open>Result[0]\<close> are not those of \<^verbatim>\<open>A[0] + B[0]\<close>.
\<close>

theorem verifyResults_accepts_other_bits:
  "verifyResults (uniform_state (Fin 0) (Fin 0) NZero) = Returned (uniform_state (Fin 0) (Fin 0) NZero)
   \<and> result_at (uniform_state (Fin 0) (Fin 0) NZero) 0 \<noteq> host_sum (uniform_state (Fin 0) (Fin 0) NZero) 0"
proof
  show "verifyResults (uniform_state (Fin 0) (Fin 0) NZero) = Returned (uniform_state (Fin 0) (Fin 0) NZero)"
    by (rule verifyResults_pass) (simp add: uniform_state_values round_f32_0 float_eq_def)
  show "result_at (uniform_state (Fin 0) (Fin 0) NZero) 0 \<noteq> host_sum (uniform_state (Fin 0) (Fin 0) NZero) 0"
    by (simp add: uniform_state_values round_f32_0)
qed

text \<open>
  C2 (as amended). In one run the two lines of the timing report (elapsed time and
  bandwidth) are printed before the verification on the host: once the command has been
  submitted, \<^verbatim>\<open>sendComputeCommand\<close> verifies the state in which both lines are already
  printed. Its output is those two lines, followed by nothing when it returns and by the
  one line of the first mismatch when it aborts.
\<close>

theorem report_precedes_verification:
  assumes "command_buffer_created env" "encoder_created env"
    "maxTotalThreadsPerThreadgroup env \<noteq> 0"
  shows "sendComputeCommand env s = verifyResults (report env (device_run env s))
    \<and> (\<exists>rest. stdout (final (sendComputeCommand env s)) =
           stdout s @ [ElapsedLine (elapsed_ms env), BandwidthLine (bandwidth (elapsed_ms env))]
             @ rest
         \<and> (aborted (sendComputeCommand env s) \<longrightarrow> (\<exists>k r v. rest = [ComputeErrorLine k r v]))
         \<and> (\<not> aborted (sendComputeCommand env s) \<longrightarrow> rest = []))"
  using sendComputeCommand_run [OF assms] sendComputeCommand_output [OF assms] by (rule conjI)

text \<open>
  C2 as stated fails: on a device whose sum differs at index 0 the run prints the elapsed
  time and the bandwidth, then the mismatch, and only then aborts.
\<close>

theorem mismatch_aborts_after_report:
  "aborted (main faulty_device_env)
   \<and> stdout (final (main faulty_device_env)) =
       [ElapsedLine 5, BandwidthLine (Fin 25), ComputeErrorLine 0 (Fin (1 / 2)) (Fin 1)]"
proof
  show "aborted (main faulty_device_env)" by (simp only: faulty_run aborted.simps)
  have "stdout (final (main faulty_device_env)) =
      stdout (prepareData faulty_device_env initial_state)
        @ [ElapsedLine (elapsed_ms faulty_device_env),
           BandwidthLine (bandwidth (elapsed_ms faulty_device_env)),
           ComputeErrorLine 0 (Fin (1 / 2)) (Fin 1)]"
    by (simp add: faulty_run stdout_printf device_run_fields)
  then show "stdout (final (main faulty_device_env)) =
      [ElapsedLine 5, BandwidthLine (Fin 25), ComputeErrorLine 0 (Fin (1 / 2)) (Fin 1)]"
    by (simp add: prepareData_pointers elapsed_sample bandwidth_5 initial_state_def)
qed

theorem report_precedes_verification_witness:
  "sendComputeCommand faulty_device_env (prepareData faulty_device_env initial_state) =
     verifyResults (report faulty_device_env
       (device_run faulty_device_env (prepareData faulty_device_env initial_state)))
   \<and> aborted (sendComputeCommand faulty_device_env (prepareData faulty_device_env initial_state))
   \<and> (\<exists>k r v. stdout (final (sendComputeCommand faulty_device_env
          (prepareData faulty_device_env initial_state))) =
        [ElapsedLine 5, BandwidthLine (Fin 25), ComputeErrorLine k r v])"
proof -
  let ?env = faulty_device_env
  let ?s = "prepareData ?env initial_state"
  have f: "command_buffer_created ?env" "encoder_created ?env"
    "maxTotalThreadsPerThreadgroup ?env \<noteq> 0"
    by (simp_all add: faulty_device_env_def sample_env_def)
  have a: "aborted (sendComputeCommand ?env ?s)"
    using faulty_run by (simp add: main_def MetalAdder_def faulty_device_env_def sample_env_def)
  have o: "stdout ?s = []" by (simp add: prepareData_pointers initial_state_def)
  from report_precedes_verification [OF f, of ?s] a show ?thesis
    by (auto simp: o elapsed_sample bandwidth_5)
qed

text \<open>
  C8. The three buffers A, B and Result are allocated with the same size,
  \<^verbatim>\<open>arrayLength * sizeof(float)\<close> = \<open>2 ^ 26\<close> bytes, the constant \<^verbatim>\<open>bufferSize\<close>; they are three
  different buffers, and no buffer changes its length while the command is encoded, run,
  reported and verified.
\<close>

theorem buffers_same_fixed_size:
  "unat bufferSize = unat arrayLength * unat sizeof_float
   \<and> unat bufferSize = 67108864
   \<and> buf_length (heap (prepareData env s) (mBufferA (prepareData env s))) = unat bufferSize
   \<and> buf_length (heap (prepareData env s) (mBufferB (prepareData env s))) = unat bufferSize
   \<and> buf_length (heap (prepareData env s) (mBufferResult (prepareData env s))) = unat bufferSize
   \<and> distinct [mBufferA (prepareData env s), mBufferB (prepareData env s),
         mBufferResult (prepareData env s)]
   \<and> (\<forall>p. buf_length (heap (final (sendComputeCommand env (prepareData env s))) p)
          = buf_length (heap (prepareData env s) p))"
proof (intro conjI allI)
  show "unat bufferSize = unat arrayLength * unat sizeof_float"
    by (simp add: unat_bufferSize unat_arrayLength sizeof_float_def)
  show "unat bufferSize = 67108864" by (rule unat_bufferSize)
  show "buf_length (heap (prepareData env s) (mBufferA (prepareData env s))) = unat bufferSize"
    by (simp only: prepareData_pointers prepareData_length)
  show "buf_length (heap (prepareData env s) (mBufferB (prepareData env s))) = unat bufferSize"
    by (simp only: prepareData_pointers prepareData_length)
  show "buf_length (heap (prepareData env s) (mBufferResult (prepareData env s))) = unat bufferSize"
    by (simp only: prepareData_pointers prepareData_length)
  show "distinct [mBufferA (prepareData env s), mBufferB (prepareData env s),
         mBufferResult (prepareData env s)]"
    by (simp add: prepareData_pointers)
next
  fix p
  show "buf_length (heap (final (sendComputeCommand env (prepareData env s))) p)
          = buf_length (heap (prepareData env s) p)"
    by (rule sendComputeCommand_length)
qed

text \<open>
  C3 (as amended). Data preparation fills A and B with the quotients
  \<^verbatim>\<open>(float)rand() / (float)RAND_MAX\<close> of the successive values of \<^verbatim>\<open>rand()\<close>, first the
  \<^verbatim>\<open>arrayLength\<close> elements of A, then those of B. Every element is a float of the closed
  interval [0, 1]: finite, at least 0 and at most 1, whatever values between 0 and
  \<^verbatim>\<open>RAND_MAX\<close> the calls return (\<^verbatim>\<open>RAND_MAX\<close> a positive \<^verbatim>\<open>int\<close>); and the element is exactly
  1.0 where \<^verbatim>\<open>rand()\<close> returned \<^verbatim>\<open>RAND_MAX\<close>.
\<close>

theorem inputs_in_closed_unit_interval:
  assumes "0 < RAND_MAX env" "RAND_MAX env < 2 ^ 31"
    and "\<forall>k. 0 \<le> rand_values env k \<and> rand_values env k \<le> RAND_MAX env"
    and "i < unat arrayLength"
  shows "load_float (mBufferA (prepareData env s)) i (prepareData env s)
           = float_div (int_to_float (rand_values env (rand_calls s + i)))
               (int_to_float (RAND_MAX env))
       \<and> load_float (mBufferB (prepareData env s)) i (prepareData env s)
           = float_div (int_to_float (rand_values env (rand_calls s + unat arrayLength + i)))
               (int_to_float (RAND_MAX env))
       \<and> (\<exists>q. load_float (mBufferA (prepareData env s)) i (prepareData env s) = Fin q
            \<and> 0 \<le> q \<and> q \<le> 1)
       \<and> (\<exists>q. load_float (mBufferB (prepareData env s)) i (prepareData env s) = Fin q
            \<and> 0 \<le> q \<and> q \<le> 1)
       \<and> (rand_values env (rand_calls s + i) = RAND_MAX env \<longrightarrow>
            load_float (mBufferA (prepareData env s)) i (prepareData env s) = Fin 1)
       \<and> (rand_values env (rand_calls s + unat arrayLength + i) = RAND_MAX env \<longrightarrow>
            load_float (mBufferB (prepareData env s)) i (prepareData env s) = Fin 1)"
proof (intro conjI impI)
  show "load_float (mBufferA (prepareData env s)) i (prepareData env s)
      = float_div (int_to_float (rand_values env (rand_calls s + i))) (int_to_float (RAND_MAX env))"
    by (simp only: prepareData_A [OF assms(4)] random_float_def)
  show "load_float (mBufferB (prepareData env s)) i (prepareData env s)
      = float_div (int_to_float (rand_values env (rand_calls s + unat arrayLength + i)))
          (int_to_float (RAND_MAX env))"
    by (simp only: prepareData_B [OF assms(4)] random_float_def)
  have a: "0 \<le> rand_values env (rand_calls s + i)"
    "rand_values env (rand_calls s + i) \<le> RAND_MAX env"
    using assms(3) by simp_all
  show "\<exists>q. load_float (mBufferA (prepareData env s)) i (prepareData env s) = Fin q
            \<and> 0 \<le> q \<and> q \<le> 1"
    using random_float_range [OF assms(1,2) a] by (simp only: prepareData_A [OF assms(4)])
  have b: "0 \<le> rand_values env (rand_calls s + unat arrayLength + i)"
    "rand_values env (rand_calls s + unat arrayLength + i) \<le> RAND_MAX env"
    using assms(3) by simp_all
  show "\<exists>q. load_float (mBufferB (prepareData env s)) i (prepareData env s) = Fin q
            \<and> 0 \<le> q \<and> q \<le> 1"
    using random_float_range [OF assms(1,2) b] by (simp only: prepareData_B [OF assms(4)])
next
  assume "rand_values env (rand_calls s + i) = RAND_MAX env"
  then show "load_float (mBufferA (prepareData env s)) i (prepareData env s) = Fin 1"
    by (simp only: prepareData_A [OF assms(4)] random_float_max [OF assms(1,2)])
next
  assume "rand_values env (rand_calls s + unat arrayLength + i) = RAND_MAX env"
  then show "load_float (mBufferB (prepareData env s)) i (prepareData env s) = Fin 1"
    by (simp only: prepareData_B [OF assms(4)] random_float_max [OF assms(1,2)])
qed

theorem inputs_in_closed_unit_interval_witness:
  "load_float (mBufferA (prepareData max_rand_env initial_state)) 7
       (prepareData max_rand_env initial_state)
     = float_div (int_to_float 2147483647) (int_to_float 2147483647)
   \<and> load_float (mBufferA (prepareData max_rand_env initial_state)) 7
       (prepareData max_rand_env initial_state) = Fin 1
   \<and> load_float (mBufferB (prepareData max_rand_env initial_state)) 7
       (prepareData max_rand_env initial_state) = Fin 1"
proof -
  have h: "0 < RAND_MAX max_rand_env" "RAND_MAX max_rand_env < 2 ^ 31"
    "\<forall>k. 0 \<le> rand_values max_rand_env k \<and> rand_values max_rand_env k \<le> RAND_MAX max_rand_env"
    "7 < unat arrayLength"
    by (simp_all add: max_rand_env_def sample_env_def unat_arrayLength)
  have v: "rand_values max_rand_env = (\<lambda>k. 2147483647)" "RAND_MAX max_rand_env = 2147483647"
    by (simp_all add: max_rand_env_def sample_env_def)
  from inputs_in_closed_unit_interval [OF h, of initial_state] show ?thesis
    unfolding v by blast
qed

text \<open>
  C3 as stated fails: when \<^verbatim>\<open>rand()\<close> returns \<^verbatim>\<open>RAND_MAX\<close>, the element stored is 1.0.
\<close>

theorem input_can_be_one:
  "load_float (mBufferA (prepareData max_rand_env initial_state)) 0
     (prepareData max_rand_env initial_state) = Fin 1"
proof -
  have "0 < unat arrayLength" by (simp add: unat_arrayLength)
  from prepareData_A [OF this, of max_rand_env initial_state] show ?thesis
    by (simp add: random_float_def max_rand_env_def sample_env_def one)
qed

text \<open>
  C4 (as amended). The program never seeds the generator (\<^verbatim>\<open>main.cc\<close> has no call of
  \<^verbatim>\<open>srand\<close>), so the input data is a function of the C library's sequence of \<^verbatim>\<open>rand()\<close>
  values and of \<^verbatim>\<open>RAND_MAX\<close> alone: two separate runs on the same C library, whatever their
  clocks and devices, fill A with the same \<^verbatim>\<open>arrayLength\<close> floats and B with the same
  \<^verbatim>\<open>arrayLength\<close> floats. Input generation is deterministic across runs.
\<close>

theorem unseeded_inputs_repeat:
  assumes "RAND_MAX env1 = RAND_MAX env2" "rand_values env1 = rand_values env2"
    "rand_calls s1 = rand_calls s2"
  shows "buffer_floats (mBufferA (prepareData env1 s1)) (prepareData env1 s1)
         = buffer_floats (mBufferA (prepareData env2 s2)) (prepareData env2 s2)
       \<and> buffer_floats (mBufferB (prepareData env1 s1)) (prepareData env1 s1)
         = buffer_floats (mBufferB (prepareData env2 s2)) (prepareData env2 s2)
       \<and> length (buffer_floats (mBufferA (prepareData env1 s1)) (prepareData env1 s1))
         = unat arrayLength
       \<and> length (buffer_floats (mBufferB (prepareData env1 s1)) (prepareData env1 s1))
         = unat arrayLength"
  using prepareData_floats_cong [OF assms] by (simp add: buffer_floats_def)

theorem unseeded_inputs_repeat_witness:
  "buffer_floats (mBufferA (prepareData sample_env initial_state))
       (prepareData sample_env initial_state)
     = buffer_floats (mBufferA (prepareData faulty_device_env initial_state))
         (prepareData faulty_device_env initial_state)
   \<and> buffer_floats (mBufferB (prepareData sample_env initial_state))
       (prepareData sample_env initial_state)
     = buffer_floats (mBufferB (prepareData faulty_device_env initial_state))
         (prepareData faulty_device_env initial_state)"
proof -
  have "RAND_MAX sample_env = RAND_MAX faulty_device_env"
    "rand_values sample_env = rand_values faulty_device_env"
    "rand_calls initial_state = rand_calls initial_state"
    by (simp_all add: faulty_device_env_def)
  from unseeded_inputs_repeat [OF this] show ?thesis by blast
qed

text \<open>
  C4 as stated fails: a run and a second run at another reading of the clock, on the same
  C library, have the same input data in A and in B.
\<close>

theorem two_runs_same_inputs:
  "clock_before sample_env \<noteq> clock_before clock_back_env
   \<and> buffer_floats (mBufferA (prepareData sample_env initial_state))
       (prepareData sample_env initial_state)
     = buffer_floats (mBufferA (prepareData clock_back_env initial_state))
         (prepareData clock_back_env initial_state)
   \<and> buffer_floats (mBufferB (prepareData sample_env initial_state))
       (prepareData sample_env initial_state)
     = buffer_floats (mBufferB (prepareData clock_back_env initial_state))
         (prepareData clock_back_env initial_state)"
proof -
  have e: "RAND_MAX sample_env = RAND_MAX clock_back_env"
    "rand_values sample_env = rand_values clock_back_env"
    "rand_calls initial_state = rand_calls initial_state"
    by (simp_all add: clock_back_env_def)
  have "clock_before sample_env \<noteq> clock_before clock_back_env"
    by (simp add: clock_back_env_def sample_env_def)
  with prepareData_floats_cong [OF e] show ?thesis by blast
qed



text \<open>
  C10. The bandwidth is computed by a division by the elapsed time without a test for
  zero. When the elapsed time is 0 ms the quotient is the float division of 125 by +0,
  which is +infinity; \<^verbatim>\<open>sendComputeCommand\<close> prints the elapsed line with 0 and the
  bandwidth line with +infinity and goes on to the verification: it aborts only if some
  element of Result differs from the host's sum, and otherwise returns with exactly
  these two lines printed.
\<close>

theorem zero_elapsed_prints_infinity:
  assumes "command_buffer_created env" "encoder_created env"
    "maxTotalThreadsPerThreadgroup env \<noteq> 0" "elapsed_ms env = 0"
  shows "bandwidth (elapsed_ms env) = PInf
    \<and> float_div (Fin 125) (int_to_float 0) = PInf
    \<and> sendComputeCommand env s =
        verifyResults (printf (BandwidthLine PInf) (printf (ElapsedLine 0) (device_run env s)))
    \<and> (\<exists>rest. stdout (final (sendComputeCommand env s)) =
           stdout s @ [ElapsedLine 0, BandwidthLine PInf] @ rest
         \<and> (aborted (sendComputeCommand env s) \<longrightarrow> (\<exists>k r v. rest = [ComputeErrorLine k r v]))
         \<and> (\<not> aborted (sendComputeCommand env s) \<longrightarrow> rest = []))
    \<and> (aborted (sendComputeCommand env s) \<longleftrightarrow>
         (\<exists>i<unat arrayLength.
            float_ne (result_at (device_run env s) i) (host_sum (device_run env s) i)))"
proof (intro conjI)
  show "bandwidth (elapsed_ms env) = PInf" by (simp only: assms(4) bandwidth_0)
  show "float_div (Fin 125) (int_to_float 0) = PInf"
    using bandwidth_unfold [of 0] by (simp only: bandwidth_0)
  show "sendComputeCommand env s =
      verifyResults (printf (BandwidthLine PInf) (printf (ElapsedLine 0) (device_run env s)))"
    using sendComputeCommand_run [OF assms(1,2,3), of s] by (simp only: assms(4) bandwidth_0)
  show "\<exists>rest. stdout (final (sendComputeCommand env s)) =
           stdout s @ [ElapsedLine 0, BandwidthLine PInf] @ rest
         \<and> (aborted (sendComputeCommand env s) \<longrightarrow> (\<exists>k r v. rest = [ComputeErrorLine k r v]))
         \<and> (\<not> aborted (sendComputeCommand env s) \<longrightarrow> rest = [])"
    using sendComputeCommand_output [OF assms(1,2,3), of s] by (simp only: assms(4) bandwidth_0)
  show "aborted (sendComputeCommand env s) \<longleftrightarrow>
      (\<exists>i<unat arrayLength.
         float_ne (result_at (device_run env s) i) (host_sum (device_run env s) i))"
    using assms(1,2,3) by (rule sendComputeCommand_aborted_iff)
qed

theorem zero_elapsed_prints_infinity_witness:
  "bandwidth (elapsed_ms same_ms_env) = PInf
   \<and> \<not> aborted (sendComputeCommand same_ms_env (prepareData same_ms_env initial_state))
   \<and> stdout (final (sendComputeCommand same_ms_env (prepareData same_ms_env initial_state)))
       = [ElapsedLine 0, BandwidthLine PInf]"
proof -
  let ?env = same_ms_env
  let ?s = "prepareData ?env initial_state"
  have h: "command_buffer_created ?env" "encoder_created ?env"
    "maxTotalThreadsPerThreadgroup ?env \<noteq> 0"
    by (simp_all add: same_ms_env_def sample_env_def)
  have z0: "elapsed_ms ?env = 0" by (rule elapsed_sample)
  have e: "RAND_MAX ?env = 2147483647" "rand_values ?env = (\<lambda>k. 1073741824)"
    "device_add ?env = float_add"
    by (simp_all add: same_ms_env_def sample_env_def)
  have "sendComputeCommand ?env ?s = verifyResults (report ?env (device_run ?env ?s))"
    using h by (rule sendComputeCommand_run)
  also have "\<dots> = Returned (report ?env (device_run ?env ?s))"
    using e by (rule sample_run_passes)
  finally have n: "\<not> aborted (sendComputeCommand ?env ?s)" by simp
  have o: "stdout ?s = []" by (simp add: prepareData_pointers initial_state_def)
  from zero_elapsed_prints_infinity [OF h z0, of ?s] obtain rest where
    b: "bandwidth (elapsed_ms ?env) = PInf"
    and r: "stdout (final (sendComputeCommand ?env ?s)) =
           stdout ?s @ [ElapsedLine 0, BandwidthLine PInf] @ rest"
    and z: "\<not> aborted (sendComputeCommand ?env ?s) \<longrightarrow> rest = []"
    by (elim exE conjE) (rule that, assumption+)
  from z n have "rest = []" by simp
  with r o have "stdout (final (sendComputeCommand ?env ?s)) = [ElapsedLine 0, BandwidthLine PInf]"
    by simp
  with b n show ?thesis by simp
qed

text \<open>
  C7 (as amended). \<^verbatim>\<open>sendComputeCommand\<close> prints the elapsed time \<open>t\<close> and then the bandwidth.
  The elapsed time is the difference of the two readings of the system clock, taken in 64
  bits, truncated to milliseconds; it is at least 0 exactly when that difference is more
  than minus one millisecond, in particular when the second reading is not earlier than
  the first and their difference does not overflow. For a nonzero \<open>t\<close> the bandwidth is
  the float expression \<^verbatim>\<open>2000.0f * bufferSize / 1024 / 1024 / 1024 / t\<close>: its constant part
  is exactly 125, so the value is the float quotient of 125 by \<open>(float)t\<close>, and for
  \<open>|t| \<le> 2 ^ 24\<close> it is \<open>2000 * bufferSize / 1024 ^ 3 / t\<close> rounded once to single precision.
\<close>

theorem reported_bandwidth_and_elapsed:
  assumes "command_buffer_created env" "encoder_created env"
    "maxTotalThreadsPerThreadgroup env \<noteq> 0"
  shows "(\<exists>rest. stdout (final (sendComputeCommand env s)) =
           stdout s @ [ElapsedLine (elapsed_ms env), BandwidthLine (bandwidth (elapsed_ms env))]
             @ rest)
   \<and> (elapsed_ms env \<noteq> 0 \<longrightarrow>
        bandwidth (elapsed_ms env) = float_div (Fin 125) (int_to_float (elapsed_ms env)))
   \<and> (elapsed_ms env \<noteq> 0 \<and> \<bar>elapsed_ms env\<bar> \<le> 2 ^ 24 \<longrightarrow>
        bandwidth (elapsed_ms env)
          = round_f32 (2000 * of_int (uint bufferSize) / 1024 ^ 3 / of_int (elapsed_ms env)))
   \<and> (0 < ticks_per_ms env \<longrightarrow>
        (0 \<le> elapsed_ms env \<longleftrightarrow>
           - ticks_per_ms env < sint (clock_after env - clock_before env)))
   \<and> (0 < ticks_per_ms env \<and> sint (clock_before env) \<le> sint (clock_after env)
        \<and> sint (clock_after env) - sint (clock_before env) < 2 ^ 63 \<longrightarrow>
        0 \<le> elapsed_ms env)"
proof (intro conjI impI)
  from sendComputeCommand_output [OF assms, of s]
  show "\<exists>rest. stdout (final (sendComputeCommand env s)) =
      stdout s @ [ElapsedLine (elapsed_ms env), BandwidthLine (bandwidth (elapsed_ms env))] @ rest"
    by blast
  show "bandwidth (elapsed_ms env) = float_div (Fin 125) (int_to_float (elapsed_ms env))"
    by (rule bandwidth_unfold)
next
  assume "elapsed_ms env \<noteq> 0 \<and> \<bar>elapsed_ms env\<bar> \<le> 2 ^ 24"
  then have "bandwidth (elapsed_ms env) = round_f32 (125 / of_int (elapsed_ms env))"
    by (intro bandwidth_exact) simp_all
  moreover have "(2000 * of_int (uint bufferSize) / 1024 ^ 3 :: rat) = 125"
    by (simp add: uint_bufferSize)
  ultimately show "bandwidth (elapsed_ms env)
      = round_f32 (2000 * of_int (uint bufferSize) / 1024 ^ 3 / of_int (elapsed_ms env))"
    by (simp only:)
next
  assume "0 < ticks_per_ms env"
  then show "0 \<le> elapsed_ms env \<longleftrightarrow>
      - ticks_per_ms env < sint (clock_after env - clock_before env)"
    by (rule duration_cast_ms_nonneg_iff)
next
  assume a: "0 < ticks_per_ms env \<and> sint (clock_before env) \<le> sint (clock_after env)
      \<and> sint (clock_after env) - sint (clock_before env) < 2 ^ 63"
  then have "sint (clock_after env - clock_before env)
      = sint (clock_after env) - sint (clock_before env)"
    by (intro sint_diff) simp_all
  with a have "0 \<le> sint (clock_after env - clock_before env)" by simp
  with a show "0 \<le> elapsed_ms env" by (intro duration_cast_ms_nonneg) simp_all
qed

theorem reported_bandwidth_and_elapsed_witness:
  "(\<exists>rest. stdout (final (sendComputeCommand sample_env (prepareData sample_env initial_state)))
       = [ElapsedLine 5, BandwidthLine (Fin 25)] @ rest)
   \<and> bandwidth 5 = float_div (Fin 125) (int_to_float 5)
   \<and> bandwidth 5 = round_f32 (2000 * of_int (uint bufferSize) / 1024 ^ 3 / of_int 5)
   \<and> 0 \<le> elapsed_ms sample_env
   \<and> sint (clock_before wrapped_clock_env) \<le> sint (clock_after wrapped_clock_env)
   \<and> elapsed_ms wrapped_clock_env = - 8446744073709
   \<and> \<not> 0 \<le> elapsed_ms wrapped_clock_env"
proof -
  let ?s = "prepareData sample_env initial_state"
  have h: "command_buffer_created sample_env" "encoder_created sample_env"
    "maxTotalThreadsPerThreadgroup sample_env \<noteq> 0"
    by (simp_all add: sample_env_def)
  have e: "elapsed_ms sample_env = 5" by (rule elapsed_sample)
  have o: "stdout ?s = []" by (simp add: prepareData_pointers initial_state_def)
  have h2: "(5::int) \<noteq> 0 \<and> \<bar>5::int\<bar> \<le> 2 ^ 24" "(5::int) \<noteq> 0" by simp_all
  have h3: "0 < ticks_per_ms sample_env \<and> sint (clock_before sample_env) \<le> sint (clock_after sample_env)
      \<and> sint (clock_after sample_env) - sint (clock_before sample_env) < 2 ^ 63"
    by (simp add: sample_env_def)
  note w = reported_bandwidth_and_elapsed [OF h, of ?s, unfolded e o append_Nil]
  from w have 1: "\<exists>rest. stdout (final (sendComputeCommand sample_env ?s))
      = [ElapsedLine 5, BandwidthLine (bandwidth 5)] @ rest"
    by (rule conjunct1)
  from w h2 have 2: "bandwidth 5 = float_div (Fin 125) (int_to_float 5)" by blast
  from w h2 have 3: "bandwidth 5 = round_f32 (2000 * of_int (uint bufferSize) / 1024 ^ 3 / of_int 5)"
    by blast
  from 1 have 5: "\<exists>rest. stdout (final (sendComputeCommand sample_env ?s))
      = [ElapsedLine 5, BandwidthLine (Fin 25)] @ rest"
    by (simp only: bandwidth_5)
  have g: "command_buffer_created wrapped_clock_env" "encoder_created wrapped_clock_env"
    "maxTotalThreadsPerThreadgroup wrapped_clock_env \<noteq> 0"
    by (simp_all add: wrapped_clock_env_def sample_env_def)
  have t: "0 < ticks_per_ms wrapped_clock_env" by (simp add: wrapped_clock_env_def)
  have d: "\<not> - ticks_per_ms wrapped_clock_env
      < sint (clock_after wrapped_clock_env - clock_before wrapped_clock_env)"
    by (simp add: wrapped_clock_env_def)
  from reported_bandwidth_and_elapsed [OF g, of initial_state] t
  have "0 \<le> elapsed_ms wrapped_clock_env \<longleftrightarrow>
      - ticks_per_ms wrapped_clock_env
        < sint (clock_after wrapped_clock_env - clock_before wrapped_clock_env)"
    by blast
  with d have 6: "\<not> 0 \<le> elapsed_ms wrapped_clock_env" by simp
  have 7: "sint (clock_before wrapped_clock_env) \<le> sint (clock_after wrapped_clock_env)"
    by (simp add: wrapped_clock_env_def)
  have 8: "elapsed_ms wrapped_clock_env = - 8446744073709"
    by (simp add: wrapped_clock_env_def duration_cast_ms_def)
  have 4: "0 \<le> elapsed_ms sample_env" by (simp add: e)
  from 5 2 3 4 7 8 6 show ?thesis by (intro conjI)
qed

text \<open>
  C7 as stated fails: when the system clock is set back by 3 ms between the two
  readings, the run completes and reports an elapsed time of -3 ms, and the bandwidth it
  reports, -10922667 / 262144, is not 2000 * bufferSize / 1024 ^ 3 / (-3) = -125 / 3.
\<close>

theorem elapsed_can_be_negative:
  "main clock_back_env =
     Returned (report clock_back_env
       (device_run clock_back_env (prepareData clock_back_env initial_state)))
   \<and> stdout (final (main clock_back_env))
       = [ElapsedLine (- 3), BandwidthLine (Fin (- (10922667 / 262144)))]
   \<and> elapsed_ms clock_back_env < 0
   \<and> valof (bandwidth (elapsed_ms clock_back_env))
       \<noteq> 2000 * of_int (uint bufferSize) / 1024 ^ 3 / of_int (elapsed_ms clock_back_env)"
proof -
  let ?env = clock_back_env
  let ?s3 = "report ?env (device_run ?env (prepareData ?env initial_state))"
  have m: "main ?env = verifyResults ?s3"
    by (rule main_run) (simp_all add: clock_back_env_def sample_env_def)
  have "verifyResults ?s3 = Returned ?s3"
    by (rule sample_run_passes) (simp_all add: clock_back_env_def sample_env_def)
  with m have r: "main ?env = Returned ?s3" by simp
  have "stdout ?s3 = stdout initial_state
      @ [ElapsedLine (elapsed_ms ?env), BandwidthLine (bandwidth (elapsed_ms ?env))]"
    by (rule run_stdout)
  then have o: "stdout ?s3 = [ElapsedLine (- 3), BandwidthLine (Fin (- (10922667 / 262144)))]"
    by (simp add: elapsed_sample bandwidth_minus_3 initial_state_def)
  have n: "elapsed_ms ?env < 0" by (simp add: elapsed_sample)
  have v: "valof (bandwidth (elapsed_ms ?env))
       \<noteq> 2000 * of_int (uint bufferSize) / 1024 ^ 3 / of_int (elapsed_ms ?env)"
    by (simp add: elapsed_sample bandwidth_minus_3 uint_bufferSize)
  from r o n v show ?thesis by simp
qed

end
